theory Spec2Isabelle
  imports Complex_Main "HOL-Library.Stream" "HOL-Library.AList"
begin

section \<open>Project Genesis: agents, world and the turn orchestrator\<close>

text \<open>
  The Python sources person.py, world.py and main.py are embedded function by function.
  Python floats are read as real numbers and Python ints as integers, except in the
  learning update, whose three operations are rounded to double precision as the source
  computes them. Objects of class
  Person are mutable and shared between the population list, the removal list and the
  arguments of a call, so they live in a store indexed by object reference; a method that
  mutates an object returns the updated store. The calls to the logger write text only
  and are left out.
\<close>

subsection \<open>Constants\<close>

text \<open>
  The module constants.py is not part of the sources. Its values are parameters of the
  model, except for the cap of the ordinary stats.
\<close>

type_synonym pos = "int \<times> int"

record params =
  GRID_SIZE :: int
  THE_MARKET :: pos
  RESOURCE_MAX :: real
  MARKET_REGENERATION_RATE :: real
  MAX_HEALTH :: real
  CYCLES_PER_DEPENDENT_YEAR :: int

text \<open>
  Modelled from the spec: the constant MAX_STAT of constants.py is missing; the spec
  declares every ordinary stat clamped to the interval from 0 to 100.
\<close>

definition MAX_STAT :: real where
  "MAX_STAT = 100"

subsection \<open>person.py\<close>

definition clamp :: "real \<Rightarrow> real \<Rightarrow> real \<Rightarrow> real" where
  "clamp v lo hi = max lo (min hi v)"

text \<open>The call \<open>clamp(value)\<close> with the default bounds 0.0 and MAX_STAT.\<close>

definition clamp_stat :: "real \<Rightarrow> real" where
  "clamp_stat v = clamp v 0 MAX_STAT"

type_synonym state_key = "pos \<times> bool \<times> bool \<times> int"

text \<open>
  The value memory is a Python dict, which keeps its keys in insertion order: an
  association list with \<open>AList.update\<close> for item assignment. The field \<open>uid\<close> is the
  attribute \<open>id\<close>. The memory cap is a count of entries.
\<close>

record person =
  name :: string
  uid :: nat
  gender :: string
  age_years :: int
  is_alive :: bool
  turns_survived :: int
  health :: real
  sustenance :: real
  mood :: real
  self_confidence :: real
  reputation :: real
  personal_goal :: string
  TiR_score :: real
  relationship_status :: string
  partner_name :: "string option"
  progeny_count :: int
  position :: pos
  last_action :: string
  action_utility_tracker :: "(state_key \<times> real) list"
  MEMORY_CAP :: nat
  w_Sustenance :: real
  w_Goal_Progress :: real
  w_Social_Bond :: real
  w_Purpose_Goal :: real

text \<open>\<open>Person.__init__\<close>; the fresh identifier is an argument.\<close>

definition Person ::
  "params \<Rightarrow> nat \<Rightarrow> string \<Rightarrow> string \<Rightarrow> int \<Rightarrow> pos \<Rightarrow> string \<Rightarrow> string \<Rightarrow> real \<Rightarrow> nat \<Rightarrow> person"
where
  "Person c fresh_id nm gen age start_pos status goal tir memory_cap =
     \<lparr> name = nm, uid = fresh_id, gender = gen, age_years = age, is_alive = True,
       turns_survived = 0, health = MAX_HEALTH c, sustenance = MAX_STAT, mood = 80,
       self_confidence = 70, reputation = 50, personal_goal = goal, TiR_score = tir,
       relationship_status = status, partner_name = None, progeny_count = 0,
       position = start_pos, last_action = ''Initialize'', action_utility_tracker = [],
       MEMORY_CAP = memory_cap, w_Sustenance = 1, w_Goal_Progress = 0.5,
       w_Social_Bond = 0.5, w_Purpose_Goal = 0.2 \<rparr>"

definition get_exploration_rate :: "person \<Rightarrow> real" where
  "get_exploration_rate p = clamp (1 - self_confidence p / MAX_STAT) 0 1"

definition get_health_decay_rate :: "person \<Rightarrow> real" where
  "get_health_decay_rate p =
     (if age_years p > 60 then 0.05 + real_of_int (age_years p - 60) * 0.02 else 0.05)"

text \<open>
  Object references and the store. \<open>share_belief\<close> reads the acting object and writes
  the target object; the two references may be the same.
\<close>

type_synonym ref = nat
type_synonym store = "ref \<Rightarrow> person"

definition share_belief :: "store \<Rightarrow> ref \<Rightarrow> ref \<Rightarrow> store \<times> real" where
  "share_belief h self target_agent =
     (let belief_diff = TiR_score (h self) - TiR_score (h target_agent);
          influence_factor = (reputation (h self) + 50) / 100;
          change_amount = belief_diff * 0.15 * influence_factor;
          h' = h(target_agent := (h target_agent)
                 \<lparr>TiR_score := clamp (TiR_score (h target_agent) + change_amount) 0 100\<rparr>)
      in (h', if \<bar>change_amount\<bar> > 2 then \<bar>change_amount\<bar> * 5 else 0))"

text \<open>
  \<open>grieve_loss\<close> reads the name of the deceased only. The comparison of a name with the
  optional partner name is true when the partner name is set and equal.
\<close>

definition grieve_loss :: "params \<Rightarrow> person \<Rightarrow> string \<Rightarrow> person \<times> int" where
  "grieve_loss c p deceased_name =
     (let (trauma_penalty, p1) =
            (if Some deceased_name = partner_name p
             then (40, p\<lparr>relationship_status := ''Grieving'', partner_name := None,
                         personal_goal := ''Recovery and Solitude''\<rparr>)
             else (15, p));
          p2 = p1\<lparr>mood := clamp_stat (mood p1 - real_of_int trauma_penalty)\<rparr>;
          p3 = p2\<lparr>health :=
                 clamp (health p2 - real_of_int trauma_penalty / 2) 0 (MAX_HEALTH c)\<rparr>
      in (p3, trauma_penalty))"

subsection \<open>The random source\<close>

text \<open>
  Every random draw of the program comes from the generator of the module \<open>random\<close>.
  The generator is an infinite stream of raw natural numbers, consumed in program
  order. \<open>random.random()\<close> is a multiple of \<open>2 ^ 53\<close> in the unit interval,
  \<open>random.choice\<close> indexes the sequence with a draw below its length, and
  \<open>random.sample\<close> selects without replacement from a shrinking pool. The pool is the
  algorithm of the library for a population of at most 21 elements of which at most
  five are drawn, as in \<open>decide_action\<close>. For a larger population the library draws
  indices until it finds one it has not drawn before; \<open>sample\<close> does not follow it
  there, so in \<open>prune_memory\<close> the model may evict other keys than the library does.
  The properties below do not say which keys are evicted.
\<close>

type_synonym rng = "nat stream"

definition random_unit :: "rng \<Rightarrow> real \<times> rng" where
  "random_unit g = (real (shd g mod 2 ^ 53) / 2 ^ 53, stl g)"

definition randbelow :: "nat \<Rightarrow> rng \<Rightarrow> nat \<times> rng" where
  "randbelow n g = (shd g mod n, stl g)"

definition choice :: "'a list \<Rightarrow> rng \<Rightarrow> 'a \<times> rng" where
  "choice xs g = (let (j, g') = randbelow (length xs) g in (xs ! j, g'))"

definition randint :: "int \<Rightarrow> int \<Rightarrow> rng \<Rightarrow> int \<times> rng" where
  "randint a b g = (let (j, g') = randbelow (nat (b - a + 1)) g in (a + int j, g'))"

fun sample :: "'a list \<Rightarrow> nat \<Rightarrow> rng \<Rightarrow> 'a list \<times> rng" where
  "sample pool 0 g = ([], g)"
| "sample pool (Suc k) g =
     (let (j, g1) = randbelow (length pool) g;
          (rest, g2) = sample (butlast (pool[j := last pool])) k g1
      in (pool ! j # rest, g2))"

subsection \<open>Aging, decay and memory pruning (person.py)\<close>

definition prune_memory :: "person \<Rightarrow> rng \<Rightarrow> person \<times> rng" where
  "prune_memory p g =
     (if length (action_utility_tracker p) > MEMORY_CAP p then
        (let remove_count = length (action_utility_tracker p) - MEMORY_CAP p;
             (keys, g') = sample (map fst (action_utility_tracker p)) remove_count g
         in (p\<lparr>action_utility_tracker :=
                  fold AList.delete keys (action_utility_tracker p)\<rparr>, g'))
      else (p, g))"

text \<open>
  \<open>apply_aging_and_decay\<close> returns whether the agent died; the argument
  \<open>current_cycle\<close> is not read by the method and is dropped. \<open>decay\<close> is its first two
  assignments, the decay of health and sustenance.
\<close>

definition decay :: "params \<Rightarrow> person \<Rightarrow> person" where
  "decay c p =
     (let p1 = p\<lparr>health := clamp (health p - get_health_decay_rate p) 0 (MAX_HEALTH c)\<rparr>
      in p1\<lparr>sustenance := clamp (sustenance p1 - 0.005) 0 MAX_STAT\<rparr>)"

definition apply_aging_and_decay :: "params \<Rightarrow> person \<Rightarrow> rng \<Rightarrow> bool \<times> person \<times> rng" where
  "apply_aging_and_decay c p g =
     (let p2 = decay c p
      in if health p2 \<le> 0 \<or> sustenance p2 \<le> 0 then (True, p2\<lparr>is_alive := False\<rparr>, g)
         else
           (let p3 = p2\<lparr>turns_survived := turns_survived p2 + 1\<rparr>;
                (p4, g') = (if turns_survived p3 mod 365 = 0
                            then prune_memory (p3\<lparr>age_years := age_years p3 + 1\<rparr>) g
                            else (p3, g));
                p5 = p4\<lparr>mood := clamp_stat (mood p4)\<rparr>;
                p6 = p5\<lparr>self_confidence := clamp_stat (self_confidence p5)\<rparr>;
                p7 = p6\<lparr>reputation := clamp_stat (reputation p6)\<rparr>
            in (False, p7, g')))"

text \<open>
  \<open>create_child\<close> returns the parent with its offspring count raised and the new
  object. The name keeps the chosen first name and the drawn number; the fresh
  identifier is an argument.
\<close>

definition child_names :: "string list" where
  "child_names = [''Anya'', ''Kael'', ''Zora'', ''Elias'', ''Nomi'']"

definition child_goals :: "string list" where
  "child_goals = [''Acquire Wealth and Status'', ''Find Love and a Partner'',
     ''Discover the World's True Limits'']"

definition digit_char :: "nat \<Rightarrow> char" where
  "digit_char d = char_of (48 + d)"

definition two_digits :: "int \<Rightarrow> string" where
  "two_digits n = [digit_char (nat n div 10), digit_char (nat n mod 10)]"

definition create_child ::
  "params \<Rightarrow> person \<Rightarrow> person \<Rightarrow> real \<Rightarrow> nat \<Rightarrow> rng \<Rightarrow> person \<times> person \<times> rng" where
  "create_child c self partner_agent max_health_cap fresh_id g =
     (let (first_name, g1) = choice child_names g;
          (number, g2) = randint 10 99 g1;
          child_name = first_name @ ''_'' @ two_digits number;
          (child_gender, g3) = choice [''Male'', ''Female''] g2;
          child_tir = (TiR_score self + TiR_score partner_agent) / 2;
          (child_goal, g4) = choice child_goals g3;
          initial_health0 =
            max 0 (MAX_HEALTH c + (reputation self + reputation partner_agent) / 5);
          initial_health = min initial_health0 max_health_cap;
          child0 = Person c fresh_id child_name child_gender 0 (position self)
                     ''Dependent'' child_goal child_tir (MEMORY_CAP self);
          child1 = child0\<lparr>health := clamp initial_health 0 max_health_cap\<rparr>;
          child = child1\<lparr>sustenance := clamp initial_health 0 max_health_cap\<rparr>
      in (self\<lparr>progeny_count := progeny_count self + 1\<rparr>, child, g4))"

subsection \<open>world.py\<close>

definition ACTION_codes :: "int list" where
  "ACTION_codes = [0, 1, 2, 3, 4, 5, 6, 7, 8, 9, 10, 11, 12]"

definition get_random_action :: "rng \<Rightarrow> int \<times> rng" where
  "get_random_action g = choice ACTION_codes g"

record world =
  grid_size :: int
  resource_level :: real
  market_pos :: pos
  resource_max :: real
  market_regen :: real

text \<open>\<open>World.__init__\<close> with its default arguments.\<close>

definition World :: "params \<Rightarrow> world" where
  "World c = \<lparr> grid_size = GRID_SIZE c, resource_level = RESOURCE_MAX c,
               market_pos = THE_MARKET c, resource_max = RESOURCE_MAX c,
               market_regen = MARKET_REGENERATION_RATE c \<rparr>"

text \<open>
  \<open>process_action\<close> in four parts, in the order of the source: the base cost of a
  turn, the branch on the action code, the regeneration of the pool, and the final
  clamping of the acting agent. The branch returns the exit flag and the reward with
  the updated world, store and generator; the bodies of the movement, market, rest and
  exit branches are functions of their own. The exit gate draws a random number only
  when the alignment test has passed, as the short-circuit conjunction of the source
  does. The list of new children is not touched by the method and is not an argument.
\<close>

definition base_cost :: "params \<Rightarrow> person \<Rightarrow> person" where
  "base_cost c p =
     (let p1 = p\<lparr>sustenance := clamp_stat (sustenance p - 0.5)\<rparr>
      in p1\<lparr>health := clamp (health p1 - 0.02) 0 (MAX_HEALTH c)\<rparr>)"

definition move_target :: "pos \<Rightarrow> int \<Rightarrow> pos" where
  "move_target xy action_code =
     (let (x, y) = xy
      in if action_code = 0 then (x, y + 1)
         else if action_code = 1 then (x, y - 1)
         else if action_code = 2 then (x + 1, y)
         else if action_code = 3 then (x - 1, y)
         else (x, y))"

definition move_action :: "world \<Rightarrow> person \<Rightarrow> int \<Rightarrow> real \<times> person" where
  "move_action w p action_code =
     (let (x, y) = move_target (position p) action_code
      in if 0 \<le> x \<and> x < grid_size w \<and> 0 \<le> y \<and> y < grid_size w
         then (1, p\<lparr>position := (x, y)\<rparr>)
         else (- 5, p))"

definition market_action :: "params \<Rightarrow> world \<Rightarrow> person \<Rightarrow> real \<times> world \<times> person" where
  "market_action c w p =
     (if position p = market_pos w \<and> resource_level w \<ge> 50
      then (let w' = w\<lparr>resource_level := resource_level w - 50\<rparr>;
                p1 = p\<lparr>sustenance := clamp_stat (sustenance p + 65)\<rparr>;
                p2 = p1\<lparr>health := clamp (health p1 + 8) 0 (MAX_HEALTH c)\<rparr>;
                p3 = p2\<lparr>reputation := clamp_stat (reputation p2 + 5)\<rparr>
            in (70, w', p3))
      else (- 15, w, p\<lparr>sustenance := clamp_stat (sustenance p - 10)\<rparr>))"

definition rest_action :: "params \<Rightarrow> person \<Rightarrow> real \<times> person" where
  "rest_action c p =
     (let p1 = p\<lparr>health := clamp (health p + 8) 0 (MAX_HEALTH c)\<rparr>;
          p2 = p1\<lparr>sustenance := clamp_stat (sustenance p1 + 15)\<rparr>;
          p3 = p2\<lparr>mood := clamp_stat (mood p2 + 5)\<rparr>
      in (20, p3))"

definition exit_attempt :: "params \<Rightarrow> person \<Rightarrow> rng \<Rightarrow> (bool \<times> real) \<times> person \<times> rng" where
  "exit_attempt c p g =
     (let p1 = p\<lparr>sustenance := clamp_stat (sustenance p - 50)\<rparr>;
          p2 = p1\<lparr>health := clamp (health p1 - 10) 0 (MAX_HEALTH c)\<rparr>;
          failed = p2\<lparr>mood := clamp_stat (mood p2 - 25)\<rparr>
      in if TiR_score p2 < 10 then
           (let (u, g') = random_unit g
            in if u < 0.05 then ((True, 1000), p2, g') else ((False, - 100), failed, g'))
         else ((False, - 100), failed, g))"

definition action_branch ::
  "params \<Rightarrow> world \<Rightarrow> store \<Rightarrow> ref \<Rightarrow> ref option \<Rightarrow> int \<Rightarrow> rng
     \<Rightarrow> (bool \<times> real) \<times> world \<times> store \<times> rng" where
  "action_branch c w h agent other_agent action_code g =
     (if 0 \<le> action_code \<and> action_code \<le> 3 then
        (let (delta_U, p) = move_action w (h agent) action_code
         in ((False, delta_U), w, h(agent := p), g))
      else if action_code = 4 then
        (let (delta_U, w', p) = market_action c w (h agent)
         in ((False, delta_U), w', h(agent := p), g))
      else if action_code = 5 then
        (let (delta_U, p) = rest_action c (h agent)
         in ((False, delta_U), w, h(agent := p), g))
      else if 6 \<le> action_code \<and> action_code \<le> 10 then ((False, 10), w, h, g)
      else if action_code = 11 \<and> other_agent \<noteq> None
              \<and> position (h agent) = position (h (the other_agent)) then
        (let (h', delta_U) = share_belief h agent (the other_agent)
         in ((False, delta_U), w, h', g))
      else if action_code = 12 then
        (let (result, p, g') = exit_attempt c (h agent) g
         in (result, w, h(agent := p), g'))
      else ((False, 0), w, h, g))"

definition regenerate :: "world \<Rightarrow> world" where
  "regenerate w =
     w\<lparr>resource_level := clamp (resource_level w + market_regen w) 0 (resource_max w)\<rparr>"

definition final_clamping :: "params \<Rightarrow> person \<Rightarrow> person" where
  "final_clamping c p =
     (let p1 = p\<lparr>health := clamp (health p) 0 (MAX_HEALTH c)\<rparr>;
          p2 = p1\<lparr>sustenance := clamp (sustenance p1) 0 MAX_STAT\<rparr>;
          p3 = p2\<lparr>mood := clamp_stat (mood p2)\<rparr>;
          p4 = p3\<lparr>reputation := clamp_stat (reputation p3)\<rparr>
      in p4\<lparr>self_confidence := clamp_stat (self_confidence p4)\<rparr>)"

definition process_action ::
  "params \<Rightarrow> world \<Rightarrow> store \<Rightarrow> ref \<Rightarrow> ref option \<Rightarrow> int \<Rightarrow> rng
     \<Rightarrow> (bool \<times> real) \<times> world \<times> store \<times> rng" where
  "process_action c w h agent other_agent action_code g =
     (let h0 = h(agent := base_cost c (h agent));
          (result, w1, h1, g1) = action_branch c w h0 agent other_agent action_code g;
          w2 = regenerate w1;
          h2 = h1(agent := final_clamping c (h1 agent))
      in (result, w2, h2, g1))"

subsection \<open>main.py: the decision policy\<close>

definition state_key :: "person \<Rightarrow> int \<Rightarrow> state_key" where
  "state_key agent action_code =
     (position agent, sustenance agent > 50, reputation agent > 50, action_code)"

text \<open>\<open>dict.get(key, default)\<close> on the value memory.\<close>

definition tracker_get :: "(state_key \<times> real) list \<Rightarrow> state_key \<Rightarrow> real \<Rightarrow> real" where
  "tracker_get t k d = (case map_of t k of None \<Rightarrow> d | Some v \<Rightarrow> v)"

definition utility :: "person \<Rightarrow> int \<Rightarrow> real" where
  "utility agent act =
     (let Q = tracker_get (action_utility_tracker agent) (state_key agent act) 10;
          survival_modifier = (100 - sustenance agent) * w_Sustenance agent;
          purpose = (if personal_goal agent = ''Discover the World's True Limits'' \<and> act = 12
                     then w_Purpose_Goal agent * 100 else 0)
      in Q + survival_modifier + purpose)"

text \<open>
  The loop over the sampled actions keeps the best action with its utility; \<open>None\<close> is
  the start of the loop, where \<open>best\<close> is \<open>None\<close> and \<open>best_u\<close> is minus infinity.
\<close>

fun best_action :: "person \<Rightarrow> int list \<Rightarrow> (int \<times> real) option \<Rightarrow> (int \<times> real) option" where
  "best_action agent [] best = best"
| "best_action agent (act # acts) best =
     best_action agent acts
       (case best of
          None \<Rightarrow> Some (act, utility agent act)
        | Some (b, best_u) \<Rightarrow>
            if utility agent act > best_u then Some (act, utility agent act) else best)"

definition decide_action ::
  "store \<Rightarrow> ref list \<Rightarrow> ref \<Rightarrow> rng \<Rightarrow> (int \<times> ref option) \<times> rng" where
  "decide_action h population agent g =
     (let others = filter (\<lambda>a. a \<noteq> agent \<and> relationship_status (h a) \<noteq> ''Dependent'')
                     population;
          (target, g1) = (if others \<noteq> [] then (let (t, g') = choice others g in (Some t, g'))
                          else (None, g));
          (u, g2) = random_unit g1
      in if u < get_exploration_rate (h agent) then
           (let (action, g3) = get_random_action g2 in ((action, target), g3))
         else
           (let (sample_actions, g3) = sample ACTION_codes (min (length ACTION_codes) 5) g2
            in case best_action (h agent) sample_actions None of
                 Some (best, best_u) \<Rightarrow> ((best, target), g3)
               | None \<Rightarrow> (let (action, g4) = get_random_action g3 in ((action, target), g4))))"

subsection \<open>main.py: the simulation\<close>

text \<open>One row of the metrics list.\<close>

record snapshot =
  m_tick :: int
  m_population :: nat
  m_exited :: nat
  m_resource_level :: real
  m_avg_TiR :: real

text \<open>
  The state of a \<open>Simulation\<close> object together with the store of Person objects, the
  next free reference, the random generator, and the source of the identifiers that
  \<open>uuid.uuid4()\<close> hands out (which the seed does not control).
\<close>

record simulation =
  turns :: int
  seed :: "int option"
  world :: world
  global_clock :: int
  exit_log :: "ref list"
  agents :: "ref list"
  metrics :: "snapshot list"
  objects :: store
  next_ref :: ref
  gen :: rng
  uuids :: "nat stream"

text \<open>
  \<open>Simulation.__init__\<close>. \<open>prng\<close> is the stream that \<open>random.seed(seed)\<close> determines;
  without a seed the generator keeps the state the operating system gave it,
  \<open>os_entropy\<close>. Objects that do not exist yet are read as \<open>blank\<close>.
\<close>

definition blank :: "params \<Rightarrow> person" where
  "blank c = Person c 0 [] [] 0 (0, 0) ''Single'' [] 50 500"

definition Simulation ::
  "params \<Rightarrow> (int \<Rightarrow> rng) \<Rightarrow> rng \<Rightarrow> nat stream \<Rightarrow> int \<Rightarrow> int option \<Rightarrow> simulation" where
  "Simulation c prng os_entropy ids n sd =
     \<lparr> turns = n, seed = sd, world = World c, global_clock = 0, exit_log = [],
       agents = [0, 1, 2], metrics = [],
       objects = (\<lambda>r. blank c)
         (0 := Person c (shd ids) ''Leo'' ''Male'' 25 (1, 1) ''Single''
                 ''Acquire Wealth and Status'' 85 500,
          1 := Person c (shd (stl ids)) ''Clara'' ''Female'' 22 (9, 9) ''Single''
                 ''Find Love and a Partner'' 60 500,
          2 := Person c (shd (stl (stl ids))) ''Elara'' ''Female'' 30 (5, 5) ''Single''
                 ''Discover the World's True Limits'' 5 500),
       next_ref = 3,
       gen = (case sd of Some k \<Rightarrow> prng k | None \<Rightarrow> os_entropy),
       uuids = stl (stl (stl ids)) \<rparr>"

text \<open>
  Double precision. \<open>fl64\<close> rounds a real number to the nearest number with a significand
  of 53 bits, ties to the even significand, as every arithmetic operation on Python
  floats does. The exponent is not bounded: overflow to infinity and subnormal numbers
  are left out, which the values of the simulation do not reach. A real number \<open>x\<close> is
  a double when \<open>fl64 x = x\<close>.
\<close>

definition round_half_even :: "real \<Rightarrow> int" where
  "round_half_even y =
     (let f = \<lfloor>y\<rfloor>
      in if y - of_int f < 1 / 2 then f
         else if 1 / 2 < y - of_int f then f + 1
         else if even f then f else f + 1)"

definition binade :: "real \<Rightarrow> int" where
  "binade x = \<lfloor>log 2 \<bar>x\<bar>\<rfloor>"

definition fl64 :: "real \<Rightarrow> real" where
  "fl64 x =
     (if x = 0 then 0
      else (let q = 2 powr of_int (binade x - 52)
            in of_int (round_half_even (x / q)) * q))"


text \<open>
  The bandit update of the value memory, \<open>cur_Q + alpha * (delta_U - cur_Q)\<close>, with the
  subtraction, the product and the sum each rounded.
\<close>

definition q_update :: "real \<Rightarrow> real \<Rightarrow> real" where
  "q_update cur_Q delta_U =
     (let alpha = 0.5 in fl64 (cur_Q + fl64 (alpha * fl64 (delta_U - cur_Q))))"

text \<open>The ideological shock of an exit, on every member of the population but the agent.\<close>

definition shock :: "person \<Rightarrow> person" where
  "shock s =
     (if TiR_score s < 50
      then (let s1 = s\<lparr>self_confidence := 100\<rparr> in s1\<lparr>TiR_score := max 0 (TiR_score s1 - 20)\<rparr>)
      else s)"

definition exit_shock :: "store \<Rightarrow> ref list \<Rightarrow> ref \<Rightarrow> store" where
  "exit_shock h population agent =
     fold (\<lambda>s h'. h'(s := shock (h' s))) (filter (\<lambda>a. a \<noteq> agent) population) h"

text \<open>
  The body of the loop over the population, for one agent. The loop carries the
  simulation, the list \<open>agents_to_remove\<close> and the list \<open>new_children\<close>. The
  environment data computed in the body are never read and are left out. The body is
  cut into the turn of a dependent agent, the update of the value memory (\<open>learn\<close>),
  the block under \<open>if is_exited\<close> (\<open>record_exit\<close>), the block that creates a child
  (\<open>reproduce\<close>, which stores the new object under the next free reference), and
  \<open>acting_turn\<close>, the part of the body after the aging step.
\<close>

definition dependent_turn :: "params \<Rightarrow> person \<Rightarrow> person" where
  "dependent_turn c p =
     (let p1 = p\<lparr>turns_survived := turns_survived p + 1\<rparr>
      in if turns_survived p1 \<ge> CYCLES_PER_DEPENDENT_YEAR c
         then (let p2 = p1\<lparr>relationship_status := ''Single''\<rparr> in p2\<lparr>age_years := 10\<rparr>)
         else p1)"

definition learn :: "state_key \<Rightarrow> real \<Rightarrow> person \<Rightarrow> person" where
  "learn key delta_U p =
     (let cur_Q = tracker_get (action_utility_tracker p) key 10;
          new_Q = q_update cur_Q delta_U
      in p\<lparr>action_utility_tracker := AList.update key new_Q (action_utility_tracker p)\<rparr>)"

definition record_exit :: "ref \<Rightarrow> simulation \<times> ref list \<Rightarrow> simulation \<times> ref list" where
  "record_exit agent st =
     (let (s, agents_to_remove) = st
      in (s\<lparr>exit_log := exit_log s @ [agent],
             objects := exit_shock (objects s) (agents s) agent\<rparr>,
          agents_to_remove @ [agent]))"

definition reproduce ::
  "params \<Rightarrow> ref \<Rightarrow> ref \<Rightarrow> simulation \<times> ref list \<Rightarrow> simulation \<times> ref list" where
  "reproduce c agent target st =
     (let (s, new_children) = st;
          (parent, child, g') =
             create_child c (objects s agent) (objects s target) (MAX_HEALTH c)
               (shd (uuids s)) (gen s);
          r = next_ref s
      in (s\<lparr>objects := (objects s)(agent := parent, r := child),
             next_ref := Suc r, gen := g', uuids := stl (uuids s)\<rparr>,
          new_children @ [r]))"

definition acting_turn ::
  "params \<Rightarrow> ref \<Rightarrow> simulation \<times> ref list \<times> ref list \<Rightarrow> simulation \<times> ref list \<times> ref list"
where
  "acting_turn c agent st =
     (let (s, agents_to_remove, new_children) = st;
          ((action, target), g2) = decide_action (objects s) (agents s) agent (gen s);
          key = state_key (objects s agent) action;
          ((is_exited, delta_U), w3, h3, g3) =
             process_action c (world s) (objects s) agent target action g2;
          s4 = s\<lparr>world := w3, objects := h3(agent := learn key delta_U (h3 agent)),
                 gen := g3\<rparr>;
          (s5, agents_to_remove') =
             (if is_exited then record_exit agent (s4, agents_to_remove)
              else (s4, agents_to_remove));
          (s6, new_children') =
             (if action = 10 \<and> target \<noteq> None
              then reproduce c agent (the target) (s5, new_children)
              else (s5, new_children))
      in (s6, agents_to_remove', new_children'))"

definition agent_turn ::
  "params \<Rightarrow> ref \<Rightarrow> simulation \<times> ref list \<times> ref list \<Rightarrow> simulation \<times> ref list \<times> ref list"
where
  "agent_turn c agent st =
     (let (s, agents_to_remove, new_children) = st
      in if relationship_status (objects s agent) = ''Dependent'' then
           (s\<lparr>objects := (objects s)(agent := dependent_turn c (objects s agent))\<rparr>,
            agents_to_remove, new_children)
         else
           (let (died, p1, g1) = apply_aging_and_decay c (objects s agent) (gen s);
                s1 = s\<lparr>objects := (objects s)(agent := p1), gen := g1\<rparr>
            in if died then (s1, agents_to_remove @ [agent], new_children)
               else acting_turn c agent (s1, agents_to_remove, new_children)))"

text \<open>The loop runs over a copy of the population list taken at its start.\<close>

definition sweep :: "params \<Rightarrow> simulation \<Rightarrow> simulation \<times> ref list \<times> ref list" where
  "sweep c s = fold (agent_turn c) (agents s) (s, [], [])"

text \<open>
  Grief and removal. For each entry of \<open>agents_to_remove\<close> the survivors are the members
  of the current population that are not this entry and not in the removal list; the
  entry is then removed from the population if it is there.
\<close>

definition grieve_all :: "params \<Rightarrow> ref list \<Rightarrow> ref \<Rightarrow> store \<Rightarrow> store" where
  "grieve_all c survivors deceased h =
     fold (\<lambda>survivor h'. h'(survivor := fst (grieve_loss c (h' survivor) (name (h' deceased)))))
       survivors h"

fun grief_and_remove ::
  "params \<Rightarrow> ref list \<Rightarrow> ref list \<Rightarrow> ref list \<times> store \<Rightarrow> ref list \<times> store" where
  "grief_and_remove c agents_to_remove [] st = st"
| "grief_and_remove c agents_to_remove (deceased # rest) (population, h) =
     (let survivors = filter (\<lambda>a. a \<noteq> deceased \<and> a \<notin> set agents_to_remove) population;
          h' = grieve_all c survivors deceased h;
          population' = (if deceased \<in> set population then remove1 deceased population
                         else population)
      in grief_and_remove c agents_to_remove rest (population', h'))"

definition make_snapshot :: "simulation \<Rightarrow> snapshot" where
  "make_snapshot s =
     \<lparr> m_tick = global_clock s, m_population = length (agents s),
       m_exited = length (exit_log s), m_resource_level = resource_level (world s),
       m_avg_TiR = (if agents s \<noteq> []
                    then sum_list (map (\<lambda>a. TiR_score (objects s a)) (agents s))
                           / real (length (agents s))
                    else 0) \<rparr>"

text \<open>\<open>Simulation.step\<close>; the yearly summary writes to the log only.\<close>

definition step :: "params \<Rightarrow> simulation \<Rightarrow> simulation" where
  "step c s =
     (let s0 = s\<lparr>global_clock := global_clock s + 1\<rparr>;
          (s1, agents_to_remove, new_children) = sweep c s0;
          (population, h) =
             grief_and_remove c agents_to_remove agents_to_remove (agents s1, objects s1);
          s2 = s1\<lparr>agents := population @ new_children, objects := h\<rparr>
      in s2\<lparr>metrics := metrics s2 @ [make_snapshot s2]\<rparr>)"

text \<open>The loop of \<open>Simulation.run\<close>; writing the file and the plot come after it.\<close>

definition run :: "params \<Rightarrow> simulation \<Rightarrow> simulation" where
  "run c s = ((step c) ^^ nat (turns s)) s"

text \<open>
  The turn of an agent ends in a successful exit: the agent is not dependent, survives
  the aging step, and \<open>process_action\<close>, called as the loop body calls it, returns the
  exit flag true.
\<close>

definition exits_in_turn :: "params \<Rightarrow> ref \<Rightarrow> simulation \<Rightarrow> bool" where
  "exits_in_turn c agent s \<longleftrightarrow>
     relationship_status (objects s agent) \<noteq> ''Dependent''
     \<and> (let (died, p1, g1) = apply_aging_and_decay c (objects s agent) (gen s);
              h1 = (objects s)(agent := p1);
              ((action, target), g2) = decide_action h1 (agents s) agent g1;
              ((is_exited, delta_U), w3, h3, g3) =
                 process_action c (world s) h1 agent target action g2
          in \<not> died \<and> is_exited)"

subsection \<open>What a call may change in an object\<close>

text \<open>
  Two relations between the state of an object before and after a call, used to say
  which attributes stay as they are: \<open>stats_only\<close> allows position, health, sustenance,
  mood, self-confidence, reputation and alignment score to change; \<open>beliefs_only\<close>
  allows only the alignment score and the self-confidence to change.
\<close>

definition stats_only :: "person \<Rightarrow> person \<Rightarrow> bool" where
  "stats_only p q \<longleftrightarrow>
     name q = name p \<and> uid q = uid p \<and> gender q = gender p \<and> age_years q = age_years p
     \<and> is_alive q = is_alive p \<and> turns_survived q = turns_survived p
     \<and> personal_goal q = personal_goal p \<and> relationship_status q = relationship_status p
     \<and> partner_name q = partner_name p \<and> progeny_count q = progeny_count p
     \<and> last_action q = last_action p
     \<and> action_utility_tracker q = action_utility_tracker p \<and> MEMORY_CAP q = MEMORY_CAP p
     \<and> w_Sustenance q = w_Sustenance p \<and> w_Goal_Progress q = w_Goal_Progress p
     \<and> w_Social_Bond q = w_Social_Bond p \<and> w_Purpose_Goal q = w_Purpose_Goal p"

definition beliefs_only :: "person \<Rightarrow> person \<Rightarrow> bool" where
  "beliefs_only p q \<longleftrightarrow>
     stats_only p q \<and> health q = health p \<and> sustenance q = sustenance p
     \<and> mood q = mood p \<and> reputation q = reputation p \<and> position q = position p"

subsection \<open>Renaming the identifiers\<close>

text \<open>
  The identifier of an object comes from \<open>uuid.uuid4()\<close>, not from the generator.
  \<open>set_uid\<close> replaces the identifier of an object, \<open>reuid\<close> the identifiers of all
  objects of a store, and \<open>resim\<close> the identifiers of all objects of a simulation and
  the source of the identifiers to come.
\<close>

definition set_uid :: "nat \<Rightarrow> person \<Rightarrow> person" where
  "set_uid u p = p\<lparr>uid := u\<rparr>"

definition reuid :: "(ref \<Rightarrow> nat) \<Rightarrow> store \<Rightarrow> store" where
  "reuid v h = (\<lambda>r. set_uid (v r) (h r))"

definition resim :: "(ref \<Rightarrow> nat) \<Rightarrow> nat stream \<Rightarrow> simulation \<Rightarrow> simulation" where
  "resim v u s = s\<lparr>objects := reuid v (objects s), uuids := u\<rparr>"

subsection \<open>A concrete configuration\<close>

text \<open>
  One choice of the missing constants and the simulation it starts, with a generator
  that returns the raw draw 0 for ever, for evaluating the model on concrete inputs.
\<close>

definition demo_params :: params where
  "demo_params = \<lparr> GRID_SIZE = 10, THE_MARKET = (5, 5), RESOURCE_MAX = 1000,
                   MARKET_REGENERATION_RATE = 5, MAX_HEALTH = 100,
                   CYCLES_PER_DEPENDENT_YEAR = 365 \<rparr>"

definition demo_sim :: simulation where
  "demo_sim = Simulation demo_params (\<lambda>k. sconst 0) (sconst 0) (sconst 0) 10 (Some 1)"

text \<open>
  Four variants of the starting state: the pool at 100; the first agent about to starve;
  the first agent with sustenance 40 and draws that make it attempt an exit; and draws
  that make the third agent, whose alignment score is 5, attempt an exit and pass the gate.
\<close>

definition low_sim :: simulation where
  "low_sim = demo_sim\<lparr>world := (world demo_sim)\<lparr>resource_level := 100\<rparr>\<rparr>"

definition famine_sim :: simulation where
  "famine_sim =
     demo_sim\<lparr>objects := (objects demo_sim)(0 := (objects demo_sim 0)\<lparr>sustenance := 0.001\<rparr>)\<rparr>"

definition weary_sim :: simulation where
  "weary_sim =
     demo_sim\<lparr>objects := (objects demo_sim)(0 := (objects demo_sim 0)\<lparr>sustenance := 40\<rparr>),
               gen := [0, 0, 12] @- sconst 0\<rparr>"

definition exit_sim :: simulation where
  "exit_sim = demo_sim\<lparr>gen := [0, 0, 0, 0, 0, 0, 0, 0, 12, 0] @- sconst 0\<rparr>"

text \<open>A variant in which the third agent is a dependent one tick before it matures.\<close>

definition nursery_sim :: simulation where
  "nursery_sim =
     demo_sim\<lparr>objects := (objects demo_sim)
        (2 := (objects demo_sim 2)\<lparr>relationship_status := ''Dependent'', turns_survived := 364\<rparr>)\<rparr>"

section \<open>Properties\<close>

lemma clamp_bounds: "lo \<le> hi \<Longrightarrow> lo \<le> clamp v lo hi \<and> clamp v lo hi \<le> hi"
  by (simp add: clamp_def)

lemma clamp_inside: "lo \<le> v \<Longrightarrow> v \<le> hi \<Longrightarrow> clamp v lo hi = v"
  by (simp add: clamp_def)

subsection \<open>Rounding to double precision\<close>

lemma round_half_even_int [simp]: "round_half_even (of_int n) = n"
  by (simp add: round_half_even_def)

lemma round_half_even_bounds:
  "real_of_int (round_half_even y) \<le> y + 1 / 2 \<and> y - 1 / 2 \<le> real_of_int (round_half_even y)"
  unfolding round_half_even_def Let_def by (auto; linarith)

lemma round_half_even_mono:
  assumes "x \<le> y"
  shows "round_half_even x \<le> round_half_even y"
proof (cases "\<lfloor>x\<rfloor> = \<lfloor>y\<rfloor>")
  case True
  then show ?thesis
    using assms unfolding round_half_even_def Let_def by auto
next
  case False
  then have lt: "\<lfloor>x\<rfloor> < \<lfloor>y\<rfloor>" using assms floor_mono[of x y] by linarith
  have "round_half_even x \<le> \<lfloor>x\<rfloor> + 1"
    unfolding round_half_even_def Let_def by auto
  moreover have "\<lfloor>y\<rfloor> \<le> round_half_even y"
    unfolding round_half_even_def Let_def by auto
  ultimately show ?thesis using lt by linarith
qed

lemma binade_bounds:
  assumes "x \<noteq> 0"
  shows "2 powr of_int (binade x) \<le> \<bar>x\<bar> \<and> \<bar>x\<bar> < 2 powr of_int (binade x + 1)"
proof -
  have p: "0 < \<bar>x\<bar>" using assms by simp
  have "of_int (binade x) \<le> log 2 \<bar>x\<bar>" unfolding binade_def by simp
  then have 1: "2 powr of_int (binade x) \<le> \<bar>x\<bar>"
    using p by (simp add: le_log_iff)
  have "log 2 \<bar>x\<bar> < of_int (binade x + 1)" unfolding binade_def by simp
  then have 2: "\<bar>x\<bar> < 2 powr of_int (binade x + 1)"
    using p by (simp add: log_less_iff)
  from 1 2 show ?thesis by simp
qed

lemma binade_eq:
  assumes "2 powr of_int e \<le> \<bar>x\<bar>" and "\<bar>x\<bar> < 2 powr of_int (e + 1)"
  shows "binade x = e"
proof -
  have p: "0 < \<bar>x\<bar>" using assms(1) by (smt (verit) powr_gt_zero)
  have 1: "of_int e \<le> log 2 \<bar>x\<bar>" using assms(1) p by (simp add: le_log_iff)
  have 2: "log 2 \<bar>x\<bar> < of_int e + 1" using assms(2) p by (simp add: log_less_iff)
  show ?thesis unfolding binade_def using 1 2 by (simp add: floor_eq_iff)
qed

lemma two_powr_int_nonneg: "0 \<le> j \<Longrightarrow> (2::real) powr real_of_int j = of_int (2 ^ nat j)"
  by (simp add: powr_real_of_int)

lemma powr_shift: "(2::real) powr real_of_int (e - 52) = 2 powr real_of_int e / 2 ^ 52"
proof -
  have "(2::real) powr real_of_int (e - 52) = 2 powr (real_of_int e - 52)" by simp
  also have "\<dots> = 2 powr real_of_int e / 2 powr 52" by (rule powr_diff)
  also have "(2::real) powr 52 = 2 ^ 52" by simp
  finally show ?thesis .
qed

lemma powr_succ: "(2::real) powr real_of_int (e + 1) = 2 * 2 powr real_of_int e"
  by (simp add: powr_add)

lemma scaled_range:
  assumes "x \<noteq> 0"
  shows "2 ^ 52 \<le> \<bar>x\<bar> / 2 powr real_of_int (binade x - 52)
       \<and> \<bar>x\<bar> / 2 powr real_of_int (binade x - 52) < 2 ^ 53"
proof -
  let ?e = "binade x"
  have b: "2 powr real_of_int ?e \<le> \<bar>x\<bar>" "\<bar>x\<bar> < 2 powr real_of_int (?e + 1)"
    using binade_bounds[OF assms] by simp_all
  have p: "0 < (2::real) powr real_of_int ?e" by simp
  have 1: "2 ^ 52 \<le> \<bar>x\<bar> / (2 powr real_of_int ?e / 2 ^ 52)"
    using b(1) p by (simp add: field_simps)
  have 2: "\<bar>x\<bar> / (2 powr real_of_int ?e / 2 ^ 52) < 2 ^ 53"
    using b(2) p unfolding powr_succ by (simp add: field_simps)
  show ?thesis unfolding powr_shift using 1 2 by simp
qed

lemma fl64_unfold:
  "x \<noteq> 0 \<Longrightarrow>
     fl64 x = real_of_int (round_half_even (x / 2 powr real_of_int (binade x - 52)))
                * 2 powr real_of_int (binade x - 52)"
  by (simp add: fl64_def Let_def)

lemma fl64_zero [simp]: "fl64 0 = 0"
  by (simp add: fl64_def)

lemma fl64_pos_bounds:
  assumes "0 < x"
  shows "2 powr real_of_int (binade x) \<le> fl64 x
       \<and> fl64 x \<le> 2 powr real_of_int (binade x + 1)"
proof -
  let ?q = "2 powr real_of_int (binade x - 52)"
  let ?y = "x / ?q"
  have x0: "x \<noteq> 0" using assms by simp
  have q: "0 < ?q" by simp
  have r: "2 ^ 52 \<le> ?y" "?y < 2 ^ 53" using scaled_range[OF x0] assms by simp_all
  have "round_half_even (real_of_int (2 ^ 52)) \<le> round_half_even ?y"
    using r(1) by (intro round_half_even_mono) simp
  then have lo: "(2::real) ^ 52 \<le> real_of_int (round_half_even ?y)"
    by (simp only: round_half_even_int) (metis of_int_le_iff of_int_numeral of_int_power)
  have "round_half_even ?y \<le> round_half_even (real_of_int (2 ^ 53))"
    using r(2) by (intro round_half_even_mono) simp
  then have hi: "real_of_int (round_half_even ?y) \<le> (2::real) ^ 53"
    by (simp only: round_half_even_int) (metis of_int_le_iff of_int_numeral of_int_power)
  have a: "2 ^ 52 * ?q = 2 powr real_of_int (binade x)"
    unfolding powr_shift by simp
  have b: "2 ^ 53 * ?q = 2 powr real_of_int (binade x + 1)"
    unfolding powr_shift powr_succ by simp
  have "2 ^ 52 * ?q \<le> real_of_int (round_half_even ?y) * ?q"
    using lo q by (intro mult_right_mono) simp_all
  moreover have "real_of_int (round_half_even ?y) * ?q \<le> 2 ^ 53 * ?q"
    using hi q by (intro mult_right_mono) simp_all
  ultimately show ?thesis
    unfolding fl64_unfold[OF x0] a b by simp
qed

lemma fl64_neg_bounds:
  assumes "x < 0"
  shows "- (2 powr real_of_int (binade x + 1)) \<le> fl64 x
       \<and> fl64 x \<le> - (2 powr real_of_int (binade x))"
proof -
  let ?q = "2 powr real_of_int (binade x - 52)"
  let ?y = "x / ?q"
  have x0: "x \<noteq> 0" using assms by simp
  have q: "0 < ?q" by simp
  have ab: "\<bar>x\<bar> / ?q = - ?y" using assms by simp
  have r: "?y \<le> - (2 ^ 52)" "- (2 ^ 53) < ?y"
    using scaled_range[OF x0] unfolding ab by simp_all
  have "round_half_even ?y \<le> round_half_even (real_of_int (- (2 ^ 52)))"
    using r(1) by (intro round_half_even_mono) simp
  then have hi: "real_of_int (round_half_even ?y) \<le> - ((2::real) ^ 52)"
    by (simp only: round_half_even_int)
       (metis of_int_le_iff of_int_minus of_int_numeral of_int_power)
  have "round_half_even (real_of_int (- (2 ^ 53))) \<le> round_half_even ?y"
    using r(2) by (intro round_half_even_mono) simp
  then have lo: "- ((2::real) ^ 53) \<le> real_of_int (round_half_even ?y)"
    by (simp only: round_half_even_int)
       (metis of_int_le_iff of_int_minus of_int_numeral of_int_power)
  have a: "2 ^ 52 * ?q = 2 powr real_of_int (binade x)"
    unfolding powr_shift by simp
  have b: "2 ^ 53 * ?q = 2 powr real_of_int (binade x + 1)"
    unfolding powr_shift powr_succ by simp
  have "(- (2 ^ 53)) * ?q \<le> real_of_int (round_half_even ?y) * ?q"
    using lo q by (intro mult_right_mono) simp_all
  moreover have "real_of_int (round_half_even ?y) * ?q \<le> (- (2 ^ 52)) * ?q"
    using hi q by (intro mult_right_mono) simp_all
  ultimately show ?thesis
    unfolding fl64_unfold[OF x0] using a b by simp
qed

lemma binade_mono: "0 < \<bar>x\<bar> \<Longrightarrow> \<bar>x\<bar> \<le> \<bar>y\<bar> \<Longrightarrow> binade x \<le> binade y"
  unfolding binade_def by (intro floor_mono) simp

lemma powr_int_mono: "a \<le> b \<Longrightarrow> (2::real) powr real_of_int a \<le> 2 powr real_of_int b"
  by (intro powr_mono) simp_all

lemma fl64_mono_pos:
  assumes "0 < x" and "x \<le> y"
  shows "fl64 x \<le> fl64 y"
proof (cases "binade x = binade y")
  case True
  let ?q = "2 powr real_of_int (binade y - 52)"
  have "round_half_even (x / ?q) \<le> round_half_even (y / ?q)"
    using assms by (intro round_half_even_mono divide_right_mono) simp_all
  then have "real_of_int (round_half_even (x / ?q)) * ?q
      \<le> real_of_int (round_half_even (y / ?q)) * ?q"
    by (intro mult_right_mono) simp_all
  then show ?thesis
    using assms by (simp add: fl64_unfold True)
next
  case False
  have "binade x \<le> binade y" using assms by (intro binade_mono) simp_all
  then have lt: "binade x + 1 \<le> binade y" using False by simp
  have "fl64 x \<le> 2 powr real_of_int (binade x + 1)"
    using fl64_pos_bounds[OF assms(1)] by simp
  also have "\<dots> \<le> 2 powr real_of_int (binade y)" using lt by (rule powr_int_mono)
  also have "\<dots> \<le> fl64 y" using fl64_pos_bounds[of y] assms by simp
  finally show ?thesis .
qed

lemma fl64_mono_neg:
  assumes "y < 0" and "x \<le> y"
  shows "fl64 x \<le> fl64 y"
proof (cases "binade x = binade y")
  case True
  let ?q = "2 powr real_of_int (binade y - 52)"
  have "round_half_even (x / ?q) \<le> round_half_even (y / ?q)"
    using assms by (intro round_half_even_mono divide_right_mono) simp_all
  then have "real_of_int (round_half_even (x / ?q)) * ?q
      \<le> real_of_int (round_half_even (y / ?q)) * ?q"
    by (intro mult_right_mono) simp_all
  then show ?thesis
    using assms by (simp add: fl64_unfold True)
next
  case False
  have x: "x < 0" using assms by simp
  have "binade y \<le> binade x" using assms by (intro binade_mono) simp_all
  then have lt: "binade y + 1 \<le> binade x" using False by simp
  have "fl64 x \<le> - (2 powr real_of_int (binade x))"
    using fl64_neg_bounds[OF x] by simp
  also have "\<dots> \<le> - (2 powr real_of_int (binade y + 1))"
    using powr_int_mono[OF lt] by simp
  also have "\<dots> \<le> fl64 y" using fl64_neg_bounds[OF assms(1)] by simp
  finally show ?thesis .
qed

lemma fl64_sign: "(0 < x \<longrightarrow> 0 < fl64 x) \<and> (x < 0 \<longrightarrow> fl64 x < 0)"
proof (intro conjI impI)
  assume "0 < x"
  then show "0 < fl64 x"
    using fl64_pos_bounds[of x] by (smt (verit) powr_gt_zero)
next
  assume "x < 0"
  then show "fl64 x < 0"
    using fl64_neg_bounds[of x] by (smt (verit) powr_gt_zero)
qed

lemma fl64_mono:
  assumes "x \<le> y"
  shows "fl64 x \<le> fl64 y"
proof -
  consider "0 < x" | "y < 0" | "x \<le> 0" "0 \<le> y" by linarith
  then show ?thesis
  proof cases
    case 1
    then show ?thesis using assms by (rule fl64_mono_pos)
  next
    case 2
    then show ?thesis using assms by (rule fl64_mono_neg)
  next
    case 3
    have "fl64 x \<le> 0" using 3(1) fl64_sign[of x] by (cases "x = 0") auto
    moreover have "0 \<le> fl64 y" using 3(2) fl64_sign[of y] by (cases "y = 0") auto
    ultimately show ?thesis by simp
  qed
qed

lemma fl64_le_twice_pos:
  assumes h: "0 \<le> x"
  shows "0 \<le> fl64 x \<and> fl64 x \<le> 2 * x"
proof (cases "x = 0")
  case True
  then show ?thesis by simp
next
  case False
  then have p: "0 < x" using h by simp
  have "fl64 x \<le> 2 * 2 powr real_of_int (binade x)"
    using fl64_pos_bounds[OF p] unfolding powr_succ by simp
  moreover have "2 powr real_of_int (binade x) \<le> x"
    using binade_bounds[OF False] p by simp
  ultimately show ?thesis using fl64_sign[of x] p by simp
qed

lemma fl64_le_twice_neg:
  assumes h: "x \<le> 0"
  shows "2 * x \<le> fl64 x \<and> fl64 x \<le> 0"
proof (cases "x = 0")
  case True
  then show ?thesis by simp
next
  case False
  then have n: "x < 0" using h by simp
  have "- (2 * 2 powr real_of_int (binade x)) \<le> fl64 x"
    using fl64_neg_bounds[OF n] unfolding powr_succ by simp
  moreover have "2 powr real_of_int (binade x) \<le> - x"
    using binade_bounds[OF False] n by simp
  ultimately show ?thesis using fl64_sign[of x] n by simp
qed

lemma fl64_exact:
  assumes "\<bar>n\<bar> < 2 ^ 53"
  shows "fl64 (real_of_int n * 2 powr real_of_int k) = real_of_int n * 2 powr real_of_int k"
proof (cases "n = 0")
  case True
  then show ?thesis by simp
next
  case False
  let ?v = "real_of_int n * 2 powr real_of_int k"
  let ?e = "binade ?v"
  have v0: "?v \<noteq> 0" using False by simp
  have av: "\<bar>?v\<bar> = real_of_int \<bar>n\<bar> * 2 powr real_of_int k" by (simp add: abs_mult)
  have "real_of_int \<bar>n\<bar> < 2 ^ 53"
    using assms by (metis of_int_less_iff of_int_numeral of_int_power)
  then have "\<bar>?v\<bar> < 2 ^ 53 * 2 powr real_of_int k"
    unfolding av by (intro mult_strict_right_mono) simp_all
  also have "\<dots> = 2 powr real_of_int (k + 53)"
    by (simp add: powr_add)
  finally have "2 powr real_of_int ?e < 2 powr real_of_int (k + 53)"
    using binade_bounds[OF v0] by linarith
  then have "?e < k + 53" by simp
  then have j: "0 \<le> k - (?e - 52)" by simp
  have "?v / 2 powr real_of_int (?e - 52)
      = real_of_int n * (2 powr real_of_int k / 2 powr real_of_int (?e - 52))" by simp
  also have "2 powr real_of_int k / 2 powr real_of_int (?e - 52)
      = 2 powr real_of_int (k - (?e - 52))"
    by (simp add: powr_diff)
  also have "\<dots> = real_of_int (2 ^ nat (k - (?e - 52)))"
    using j by (rule two_powr_int_nonneg)
  finally have s: "?v / 2 powr real_of_int (?e - 52)
      = real_of_int (n * 2 ^ nat (k - (?e - 52)))" by simp
  have "fl64 ?v = real_of_int (n * 2 ^ nat (k - (?e - 52))) * 2 powr real_of_int (?e - 52)"
    unfolding fl64_unfold[OF v0] s round_half_even_int ..
  also have "\<dots> = ?v * (2 powr real_of_int (?e - 52) / 2 powr real_of_int (?e - 52))"
    unfolding s[symmetric] by simp
  finally show ?thesis by simp
qed

lemma round_scaled_bound:
  assumes "x \<noteq> 0"
  shows "\<bar>round_half_even (x / 2 powr real_of_int (binade x - 52))\<bar> \<le> 2 ^ 53"
proof -
  define y where "y = x / 2 powr real_of_int (binade x - 52)"
  have a: "\<bar>x\<bar> / 2 powr real_of_int (binade x - 52) = \<bar>y\<bar>" by (simp add: y_def)
  have r: "\<bar>y\<bar> < 2 ^ 53" using scaled_range[OF assms] unfolding a by simp
  have r1: "y \<le> real_of_int (2 ^ 53)" and r2: "real_of_int (- (2 ^ 53)) \<le> y"
    using r by (simp_all add: abs_less_iff)
  have "round_half_even y \<le> round_half_even (real_of_int (2 ^ 53))"
    using r1 by (rule round_half_even_mono)
  moreover have "round_half_even (real_of_int (- (2 ^ 53))) \<le> round_half_even y"
    using r2 by (rule round_half_even_mono)
  ultimately have "\<bar>round_half_even y\<bar> \<le> 2 ^ 53"
    by (simp only: round_half_even_int)
  then show ?thesis by (simp add: y_def)
qed

lemma fl64_idem: "fl64 (fl64 x) = fl64 x"
proof (cases "x = 0")
  case True
  then show ?thesis by simp
next
  case False
  let ?k = "binade x - 52"
  let ?m = "round_half_even (x / 2 powr real_of_int ?k)"
  have u: "fl64 x = real_of_int ?m * 2 powr real_of_int ?k" by (rule fl64_unfold[OF False])
  have b: "\<bar>?m\<bar> \<le> 2 ^ 53" by (rule round_scaled_bound[OF False])
  show ?thesis
  proof (cases "\<bar>?m\<bar> < 2 ^ 53")
    case True
    then show ?thesis unfolding u by (rule fl64_exact)
  next
    case False
    then have "\<bar>?m\<bar> = 2 ^ 53" using b by simp
    then consider "?m = 2 ^ 53" | "?m = - (2 ^ 53)" by linarith
    then show ?thesis
    proof cases
      case 1
      have "real_of_int ?m * 2 powr real_of_int ?k
          = real_of_int (2 ^ 52) * 2 powr real_of_int (?k + 1)"
        unfolding 1 powr_succ by simp
      moreover have "fl64 (real_of_int (2 ^ 52) * 2 powr real_of_int (?k + 1))
          = real_of_int (2 ^ 52) * 2 powr real_of_int (?k + 1)"
        by (rule fl64_exact) simp
      ultimately show ?thesis unfolding u by simp
    next
      case 2
      have "real_of_int ?m * 2 powr real_of_int ?k
          = real_of_int (- (2 ^ 52)) * 2 powr real_of_int (?k + 1)"
        unfolding 2 powr_succ by simp
      moreover have "fl64 (real_of_int (- (2 ^ 52)) * 2 powr real_of_int (?k + 1))
          = real_of_int (- (2 ^ 52)) * 2 powr real_of_int (?k + 1)"
        by (rule fl64_exact) simp
      ultimately show ?thesis unfolding u by simp
    qed
  qed
qed

lemma binade_half: "x \<noteq> 0 \<Longrightarrow> binade (x / 2) = binade x - 1"
proof (rule binade_eq)
  assume x: "x \<noteq> 0"
  have b: "2 powr real_of_int (binade x) \<le> \<bar>x\<bar>" "\<bar>x\<bar> < 2 powr real_of_int (binade x + 1)"
    using binade_bounds[OF x] by simp_all
  have h: "(2::real) powr real_of_int (binade x - 1) = 2 powr real_of_int (binade x) / 2"
    by (simp add: powr_diff)
  show "2 powr real_of_int (binade x - 1) \<le> \<bar>x / 2\<bar>"
    unfolding h using b(1) by simp
  have e: "binade x - 1 + 1 = binade x" by simp
  show "\<bar>x / 2\<bar> < 2 powr real_of_int (binade x - 1 + 1)"
    unfolding e using b(2) unfolding powr_succ by simp
qed

lemma fl64_half: "fl64 (x / 2) = fl64 x / 2"
proof (cases "x = 0")
  case True
  then show ?thesis by simp
next
  case False
  have h0: "x / 2 \<noteq> 0" using False by simp
  have q: "(2::real) powr real_of_int (binade x - 1 - 52) = 2 powr real_of_int (binade x - 52) / 2"
    by (simp add: powr_diff)
  show ?thesis
    unfolding fl64_unfold[OF h0] fl64_unfold[OF False] binade_half[OF False] q by simp
qed

lemma fl64_update_between:
  assumes a: "fl64 a = a" and r: "fl64 r = r"
  shows "min a r \<le> fl64 (a + fl64 (0.5 * fl64 (r - a)))
       \<and> fl64 (a + fl64 (0.5 * fl64 (r - a))) \<le> max a r"
proof -
  let ?d = "fl64 (r - a)"
  have h: "fl64 (0.5 * ?d) = ?d / 2"
    using fl64_half[of ?d] by (simp add: fl64_idem)
  show ?thesis
  proof (cases "a \<le> r")
    case True
    have "0 \<le> ?d \<and> ?d \<le> 2 * (r - a)" using True by (intro fl64_le_twice_pos) simp
    then have b: "a \<le> a + ?d / 2" "a + ?d / 2 \<le> r" by simp_all
    have "fl64 a \<le> fl64 (a + ?d / 2)" using b(1) by (rule fl64_mono)
    moreover have "fl64 (a + ?d / 2) \<le> fl64 r" using b(2) by (rule fl64_mono)
    ultimately show ?thesis unfolding h a r using True by simp
  next
    case False
    have "2 * (r - a) \<le> ?d \<and> ?d \<le> 0" using False by (intro fl64_le_twice_neg) simp
    then have b: "r \<le> a + ?d / 2" "a + ?d / 2 \<le> a" by simp_all
    have "fl64 r \<le> fl64 (a + ?d / 2)" using b(1) by (rule fl64_mono)
    moreover have "fl64 (a + ?d / 2) \<le> fl64 a" using b(2) by (rule fl64_mono)
    ultimately show ?thesis unfolding h a r using False by simp
  qed
qed

subsection \<open>What the parts of a turn leave unchanged\<close>

lemma stats_only_refl [simp]: "stats_only p p"
  by (simp add: stats_only_def)

lemma beliefs_only_refl [simp]: "beliefs_only p p"
  by (simp add: beliefs_only_def)

lemma stats_only_trans: "stats_only p q \<Longrightarrow> stats_only q r \<Longrightarrow> stats_only p r"
  by (simp add: stats_only_def)

lemma beliefs_only_trans: "beliefs_only p q \<Longrightarrow> beliefs_only q r \<Longrightarrow> beliefs_only p r"
  by (simp add: beliefs_only_def stats_only_def)

lemma beliefs_only_stats: "beliefs_only p q \<Longrightarrow> stats_only p q"
  by (simp add: beliefs_only_def)

lemma share_belief_frame:
  "beliefs_only (h r) (fst (share_belief h a t) r)"
  by (simp add: share_belief_def Let_def beliefs_only_def stats_only_def)

lemma base_cost_stats: "stats_only p (base_cost c p)"
  by (simp add: base_cost_def Let_def stats_only_def)

lemma final_clamping_stats: "stats_only p (final_clamping c p)"
  by (simp add: final_clamping_def Let_def stats_only_def)

lemma move_action_stats: "stats_only p (snd (move_action w p act))"
  by (simp add: move_action_def Let_def split_beta stats_only_def)

lemma market_action_stats: "stats_only p (snd (snd (market_action c w p)))"
  by (simp add: market_action_def Let_def stats_only_def)

lemma rest_action_stats: "stats_only p (snd (rest_action c p))"
  by (simp add: rest_action_def Let_def stats_only_def)

lemma exit_attempt_stats: "stats_only p (fst (snd (exit_attempt c p g)))"
  by (simp add: exit_attempt_def Let_def split_beta stats_only_def)

lemma action_branch_stats:
  "stats_only (h r) (fst (snd (snd (action_branch c w h a other act g))) r)"
  by (simp add: action_branch_def Let_def split_beta move_action_stats market_action_stats
      rest_action_stats exit_attempt_stats beliefs_only_stats[OF share_belief_frame])

lemma action_branch_others:
  "r \<noteq> a \<Longrightarrow> beliefs_only (h r) (fst (snd (snd (action_branch c w h a other act g))) r)"
  by (simp add: action_branch_def Let_def split_beta share_belief_frame)

lemma process_action_store:
  "fst (snd (snd (process_action c w h a other act g))) =
     (let h1 = fst (snd (snd (action_branch c w (h(a := base_cost c (h a))) a other act g)))
      in h1(a := final_clamping c (h1 a)))"
  by (simp add: process_action_def Let_def split_beta)

lemma process_action_stats:
  "stats_only (h r) (fst (snd (snd (process_action c w h a other act g))) r)"
proof -
  let ?h0 = "h(a := base_cost c (h a))"
  let ?h1 = "fst (snd (snd (action_branch c w ?h0 a other act g)))"
  have 0: "stats_only (h r) (?h0 r)" by (simp add: base_cost_stats)
  have 1: "stats_only (?h0 r) (?h1 r)" by (rule action_branch_stats)
  have 2: "stats_only (?h1 r) ((?h1(a := final_clamping c (?h1 a))) r)"
    by (simp add: final_clamping_stats)
  show ?thesis
    unfolding process_action_store Let_def
    using stats_only_trans[OF stats_only_trans[OF 0 1] 2] .
qed

lemma process_action_others:
  assumes "r \<noteq> a"
  shows "beliefs_only (h r) (fst (snd (snd (process_action c w h a other act g))) r)"
proof -
  let ?h0 = "h(a := base_cost c (h a))"
  have "beliefs_only (?h0 r) (fst (snd (snd (action_branch c w ?h0 a other act g))) r)"
    using assms by (rule action_branch_others)
  then show ?thesis
    using assms by (simp add: process_action_store Let_def)
qed

lemma shock_beliefs: "beliefs_only p (shock p)"
  by (simp add: shock_def Let_def beliefs_only_def stats_only_def)

lemma exit_shock_frame: "beliefs_only (h r) (exit_shock h pop a r)"
proof -
  have "beliefs_only (h r) (fold (\<lambda>s h'. h'(s := shock (h' s))) xs h r)" for xs
  proof (induction xs arbitrary: h)
    case Nil
    show ?case by simp
  next
    case (Cons x xs)
    have "beliefs_only (h r) ((h(x := shock (h x))) r)"
      by (simp add: shock_beliefs)
    from beliefs_only_trans[OF this Cons.IH[of "h(x := shock (h x))"]]
    show ?case by simp
  qed
  then show ?thesis by (simp add: exit_shock_def)
qed

lemma exit_shock_self: "exit_shock h pop a a = h a"
proof -
  have "a \<notin> set xs \<Longrightarrow> fold (\<lambda>s h'. h'(s := shock (h' s))) xs h a = h a" for xs
    by (induction xs arbitrary: h) auto
  then show ?thesis by (simp add: exit_shock_def)
qed

subsection \<open>The acting part of a turn\<close>

lemma record_exit_eq:
  "record_exit a (s, R) =
     (s\<lparr>exit_log := exit_log s @ [a], objects := exit_shock (objects s) (agents s) a\<rparr>,
      R @ [a])"
  by (simp add: record_exit_def)

lemma create_child_parent:
  "fst (create_child c p q cap i g) = p\<lparr>progeny_count := progeny_count p + 1\<rparr>"
  by (simp add: create_child_def Let_def split_beta)

lemma reproduce_eq:
  "reproduce c a t (s, K) =
     (let cc = create_child c (objects s a) (objects s t) (MAX_HEALTH c) (shd (uuids s)) (gen s)
      in (s\<lparr>objects := (objects s)(a := (objects s a)\<lparr>progeny_count := progeny_count (objects s a) + 1\<rparr>,
                                  next_ref s := fst (snd cc)),
             next_ref := Suc (next_ref s), gen := snd (snd cc), uuids := stl (uuids s)\<rparr>,
          K @ [next_ref s]))"
  by (simp add: reproduce_def Let_def split_beta create_child_parent)

lemma acting_turn_elim:
  assumes "\<And>act tgt g2 ex dU w3 h3 g3 s4 s5 R' s6 K'.
      decide_action (objects s) (agents s) a (gen s) = ((act, tgt), g2) \<Longrightarrow>
      process_action c (world s) (objects s) a tgt act g2 = ((ex, dU), w3, h3, g3) \<Longrightarrow>
      s4 = s\<lparr>world := w3,
             objects := h3(a := learn (state_key (objects s a) act) dU (h3 a)),
             gen := g3\<rparr> \<Longrightarrow>
      (s5, R') = (if ex then record_exit a (s4, R) else (s4, R)) \<Longrightarrow>
      (s6, K') = (if act = 10 \<and> tgt \<noteq> None then reproduce c a (the tgt) (s5, K)
                  else (s5, K)) \<Longrightarrow>
      acting_turn c a (s, R, K) = (s6, R', K') \<Longrightarrow> P"
  shows P
proof -
  obtain act tgt g2 where dec: "decide_action (objects s) (agents s) a (gen s) = ((act, tgt), g2)"
    by (metis surj_pair)
  obtain ex dU w3 h3 g3 where
    pa: "process_action c (world s) (objects s) a tgt act g2 = ((ex, dU), w3, h3, g3)"
    by (metis surj_pair)
  define s4 where "s4 = s\<lparr>world := w3,
             objects := h3(a := learn (state_key (objects s a) act) dU (h3 a)), gen := g3\<rparr>"
  obtain s5 R' where 5: "(s5, R') = (if ex then record_exit a (s4, R) else (s4, R))"
    by (metis surj_pair)
  obtain s6 K' where 6: "(s6, K') = (if act = 10 \<and> tgt \<noteq> None
      then reproduce c a (the tgt) (s5, K) else (s5, K))"
    by (metis surj_pair)
  have "acting_turn c a (s, R, K) =
          (case (if ex then record_exit a (s4, R) else (s4, R)) of
             (s5, R') \<Rightarrow>
               (case (if act = 10 \<and> tgt \<noteq> None then reproduce c a (the tgt) (s5, K)
                      else (s5, K)) of
                  (s6, K') \<Rightarrow> (s6, R', K')))"
    unfolding acting_turn_def Let_def s4_def by (simp only: prod.case dec pa)
  then have "acting_turn c a (s, R, K) = (s6, R', K')"
    by (simp only: 5[symmetric] prod.case 6[symmetric])
  from assms[OF dec pa s4_def 5 6 this] show P .
qed


lemma learn_tracker:
  "action_utility_tracker (learn key dU p) =
     AList.update key (q_update (tracker_get (action_utility_tracker p) key 10) dU)
       (action_utility_tracker p)"
  by (simp add: learn_def Let_def)

lemma stats_only_tracker: "stats_only p q \<Longrightarrow> action_utility_tracker q = action_utility_tracker p"
  by (simp add: stats_only_def)

lemma acting_turn_fields:
  "agents (fst (acting_turn c a (s, R, K))) = agents s
   \<and> turns (fst (acting_turn c a (s, R, K))) = turns s
   \<and> seed (fst (acting_turn c a (s, R, K))) = seed s
   \<and> global_clock (fst (acting_turn c a (s, R, K))) = global_clock s
   \<and> metrics (fst (acting_turn c a (s, R, K))) = metrics s"
proof (rule acting_turn_elim[of s a c R K])
  fix act tgt g2 ex dU w3 h3 g3 s4 s5 R' s6 K'
  assume s4: "s4 = s\<lparr>world := w3,
             objects := h3(a := learn (state_key (objects s a) act) dU (h3 a)), gen := g3\<rparr>"
    and 5: "(s5, R') = (if ex then record_exit a (s4, R) else (s4, R))"
    and 6: "(s6, K') = (if act = 10 \<and> tgt \<noteq> None then reproduce c a (the tgt) (s5, K)
                  else (s5, K))"
    and at: "acting_turn c a (s, R, K) = (s6, R', K')"
  have 56: "agents s6 = agents s5 \<and> turns s6 = turns s5 \<and> seed s6 = seed s5
      \<and> global_clock s6 = global_clock s5 \<and> metrics s6 = metrics s5"
    using 6 by (auto simp: reproduce_eq Let_def split: if_splits)
  have 45: "agents s5 = agents s4 \<and> turns s5 = turns s4 \<and> seed s5 = seed s4
      \<and> global_clock s5 = global_clock s4 \<and> metrics s5 = metrics s4"
    using 5 by (auto simp: record_exit_eq split: if_splits)
  show ?thesis using 56 45 by (simp add: at s4)
qed

lemma acting_turn_alloc:
  "(next_ref (fst (acting_turn c a (s, R, K))) = next_ref s
      \<and> snd (snd (acting_turn c a (s, R, K))) = K)
   \<or> (next_ref (fst (acting_turn c a (s, R, K))) = Suc (next_ref s)
      \<and> snd (snd (acting_turn c a (s, R, K))) = K @ [next_ref s])"
proof (rule acting_turn_elim[of s a c R K])
  fix act tgt g2 ex dU w3 h3 g3 s4 s5 R' s6 K'
  assume s4: "s4 = s\<lparr>world := w3,
             objects := h3(a := learn (state_key (objects s a) act) dU (h3 a)), gen := g3\<rparr>"
    and 5: "(s5, R') = (if ex then record_exit a (s4, R) else (s4, R))"
    and 6: "(s6, K') = (if act = 10 \<and> tgt \<noteq> None then reproduce c a (the tgt) (s5, K)
                  else (s5, K))"
    and at: "acting_turn c a (s, R, K) = (s6, R', K')"
  have 45: "next_ref s5 = next_ref s"
    using 5 by (auto simp: record_exit_eq s4 split: if_splits)
  have "(next_ref s6 = next_ref s5 \<and> K' = K) \<or> (next_ref s6 = Suc (next_ref s5) \<and> K' = K @ [next_ref s5])"
    using 6 by (auto simp: reproduce_eq Let_def split: if_splits)
  then show ?thesis by (simp add: at 45)
qed

lemma acting_turn_removal:
  "(exit_log (fst (acting_turn c a (s, R, K))) = exit_log s
      \<and> fst (snd (acting_turn c a (s, R, K))) = R)
   \<or> (exit_log (fst (acting_turn c a (s, R, K))) = exit_log s @ [a]
      \<and> fst (snd (acting_turn c a (s, R, K))) = R @ [a])"
proof (rule acting_turn_elim[of s a c R K])
  fix act tgt g2 ex dU w3 h3 g3 s4 s5 R' s6 K'
  assume s4: "s4 = s\<lparr>world := w3,
             objects := h3(a := learn (state_key (objects s a) act) dU (h3 a)), gen := g3\<rparr>"
    and 5: "(s5, R') = (if ex then record_exit a (s4, R) else (s4, R))"
    and 6: "(s6, K') = (if act = 10 \<and> tgt \<noteq> None then reproduce c a (the tgt) (s5, K)
                  else (s5, K))"
    and at: "acting_turn c a (s, R, K) = (s6, R', K')"
  have 56: "exit_log s6 = exit_log s5"
    using 6 by (auto simp: reproduce_eq Let_def split: if_splits)
  have "(exit_log s5 = exit_log s \<and> R' = R) \<or> (exit_log s5 = exit_log s @ [a] \<and> R' = R @ [a])"
    using 5 by (auto simp: record_exit_eq s4 split: if_splits)
  then show ?thesis by (simp add: at 56)
qed

lemma acting_turn_others:
  assumes "r \<noteq> a" and "r \<noteq> next_ref s"
  shows "beliefs_only (objects s r) (objects (fst (acting_turn c a (s, R, K))) r)"
proof (rule acting_turn_elim[of s a c R K])
  fix act tgt g2 ex dU w3 h3 g3 s4 s5 R' s6 K'
  assume pa: "process_action c (world s) (objects s) a tgt act g2 = ((ex, dU), w3, h3, g3)"
    and s4: "s4 = s\<lparr>world := w3,
             objects := h3(a := learn (state_key (objects s a) act) dU (h3 a)), gen := g3\<rparr>"
    and 5: "(s5, R') = (if ex then record_exit a (s4, R) else (s4, R))"
    and 6: "(s6, K') = (if act = 10 \<and> tgt \<noteq> None then reproduce c a (the tgt) (s5, K)
                  else (s5, K))"
    and at: "acting_turn c a (s, R, K) = (s6, R', K')"
  have "beliefs_only (objects s r) (h3 r)"
    using process_action_others[OF assms(1), of "objects s" c "world s" tgt act g2] pa by simp
  then have 4: "beliefs_only (objects s r) (objects s4 r)"
    using assms(1) by (simp add: s4)
  have 45: "beliefs_only (objects s4 r) (objects s5 r)"
    using 5 by (auto simp: record_exit_eq exit_shock_frame split: if_splits)
  have n: "next_ref s5 = next_ref s"
    using 5 by (auto simp: record_exit_eq s4 split: if_splits)
  have 56: "objects s6 r = objects s5 r"
    using 6 assms n by (auto simp: reproduce_eq Let_def split: if_splits)
  show ?thesis
    using beliefs_only_trans[OF 4 45] 56 by (simp add: at)
qed

lemma acting_turn_tracker:
  assumes "a \<noteq> next_ref s"
  shows "action_utility_tracker (objects (fst (acting_turn c a (s, R, K))) a) =
     (let da = decide_action (objects s) (agents s) a (gen s);
          act = fst (fst da); tgt = snd (fst da);
          delta_U = snd (fst (process_action c (world s) (objects s) a tgt act (snd da)));
          key = state_key (objects s a) act
      in AList.update key
           (q_update (tracker_get (action_utility_tracker (objects s a)) key 10) delta_U)
           (action_utility_tracker (objects s a)))"
proof (rule acting_turn_elim[of s a c R K])
  fix act tgt g2 ex dU w3 h3 g3 s4 s5 R' s6 K'
  assume dec: "decide_action (objects s) (agents s) a (gen s) = ((act, tgt), g2)"
    and pa: "process_action c (world s) (objects s) a tgt act g2 = ((ex, dU), w3, h3, g3)"
    and s4: "s4 = s\<lparr>world := w3,
             objects := h3(a := learn (state_key (objects s a) act) dU (h3 a)), gen := g3\<rparr>"
    and 5: "(s5, R') = (if ex then record_exit a (s4, R) else (s4, R))"
    and 6: "(s6, K') = (if act = 10 \<and> tgt \<noteq> None then reproduce c a (the tgt) (s5, K)
                  else (s5, K))"
    and at: "acting_turn c a (s, R, K) = (s6, R', K')"
  have t3: "action_utility_tracker (h3 a) = action_utility_tracker (objects s a)"
    using stats_only_tracker[OF process_action_stats[of "objects s" a c "world s" a tgt act g2]] pa
    by simp
  have 4: "action_utility_tracker (objects s4 a) =
      AList.update (state_key (objects s a) act)
        (q_update (tracker_get (action_utility_tracker (objects s a)) (state_key (objects s a) act) 10) dU)
        (action_utility_tracker (objects s a))"
    by (simp add: s4 learn_tracker t3)
  have 45: "objects s5 a = objects s4 a"
    using 5 by (auto simp: record_exit_eq exit_shock_self split: if_splits)
  have n: "next_ref s5 = next_ref s"
    using 5 by (auto simp: record_exit_eq s4 split: if_splits)
  have 56: "action_utility_tracker (objects s6 a) = action_utility_tracker (objects s5 a)"
    using 6 assms n by (auto simp: reproduce_eq Let_def split: if_splits)
  show ?thesis
    by (simp add: at 56 45 4 dec pa Let_def)
qed

lemma acting_turn_world:
  "world (fst (acting_turn c a (s, R, K))) =
     (let da = decide_action (objects s) (agents s) a (gen s)
      in fst (snd (process_action c (world s) (objects s) a (snd (fst da)) (fst (fst da)) (snd da))))"
proof (rule acting_turn_elim[of s a c R K])
  fix act tgt g2 ex dU w3 h3 g3 s4 s5 R' s6 K'
  assume dec: "decide_action (objects s) (agents s) a (gen s) = ((act, tgt), g2)"
    and pa: "process_action c (world s) (objects s) a tgt act g2 = ((ex, dU), w3, h3, g3)"
    and s4: "s4 = s\<lparr>world := w3,
             objects := h3(a := learn (state_key (objects s a) act) dU (h3 a)), gen := g3\<rparr>"
    and 5: "(s5, R') = (if ex then record_exit a (s4, R) else (s4, R))"
    and 6: "(s6, K') = (if act = 10 \<and> tgt \<noteq> None then reproduce c a (the tgt) (s5, K)
                  else (s5, K))"
    and at: "acting_turn c a (s, R, K) = (s6, R', K')"
  have 45: "world s5 = world s4"
    using 5 by (auto simp: record_exit_eq split: if_splits)
  have 56: "world s6 = world s5"
    using 6 by (auto simp: reproduce_eq Let_def split: if_splits)
  show ?thesis by (simp add: at 56 45 s4 dec pa Let_def)
qed

lemma acting_turn_exit:
  "fst (snd (acting_turn c a (s, R, K))) =
     (let da = decide_action (objects s) (agents s) a (gen s)
      in if fst (fst (process_action c (world s) (objects s) a (snd (fst da)) (fst (fst da)) (snd da)))
         then R @ [a] else R)"
proof (rule acting_turn_elim[of s a c R K])
  fix act tgt g2 ex dU w3 h3 g3 s4 s5 R' s6 K'
  assume dec: "decide_action (objects s) (agents s) a (gen s) = ((act, tgt), g2)"
    and pa: "process_action c (world s) (objects s) a tgt act g2 = ((ex, dU), w3, h3, g3)"
    and 5: "(s5, R') = (if ex then record_exit a (s4, R) else (s4, R))"
    and at: "acting_turn c a (s, R, K) = (s6, R', K')"
  have "R' = (if ex then R @ [a] else R)"
    using 5 by (auto simp: record_exit_eq split: if_splits)
  then show ?thesis by (simp add: at dec pa Let_def)
qed

subsection \<open>One turn and the loop over the population\<close>

lemma aging_died:
  "fst (apply_aging_and_decay c p g) \<longleftrightarrow> health (decay c p) \<le> 0 \<or> sustenance (decay c p) \<le> 0"
  by (simp add: apply_aging_and_decay_def Let_def split_beta)

lemma aging_dead_result:
  "health (decay c p) \<le> 0 \<or> sustenance (decay c p) \<le> 0 \<Longrightarrow>
     apply_aging_and_decay c p g = (True, (decay c p)\<lparr>is_alive := False\<rparr>, g)"
  by (simp add: apply_aging_and_decay_def Let_def)

lemma agent_turn_dependent:
  "relationship_status (objects s a) = ''Dependent'' \<Longrightarrow>
     agent_turn c a (s, R, K) =
       (s\<lparr>objects := (objects s)(a := dependent_turn c (objects s a))\<rparr>, R, K)"
  by (simp add: agent_turn_def)

lemma agent_turn_died:
  assumes "relationship_status (objects s a) \<noteq> ''Dependent''"
      and "health (decay c (objects s a)) \<le> 0 \<or> sustenance (decay c (objects s a)) \<le> 0"
  shows "agent_turn c a (s, R, K) =
       (s\<lparr>objects := (objects s)(a := (decay c (objects s a))\<lparr>is_alive := False\<rparr>)\<rparr>,
        R @ [a], K)"
  using assms(1) by (simp add: agent_turn_def aging_dead_result[OF assms(2)])

lemma agent_turn_acts:
  assumes "relationship_status (objects s a) \<noteq> ''Dependent''"
      and "\<not> (health (decay c (objects s a)) \<le> 0 \<or> sustenance (decay c (objects s a)) \<le> 0)"
  shows "agent_turn c a (s, R, K) =
       acting_turn c a
         (s\<lparr>objects := (objects s)(a := fst (snd (apply_aging_and_decay c (objects s a) (gen s)))),
             gen := snd (snd (apply_aging_and_decay c (objects s a) (gen s)))\<rparr>, R, K)"
proof -
  have "\<not> fst (apply_aging_and_decay c (objects s a) (gen s))"
    using assms(2) by (simp add: aging_died)
  then show ?thesis
    using assms(1) by (simp add: agent_turn_def split_beta Let_def)
qed

lemma agent_turn_cases:
  obtains (dependent) "relationship_status (objects s a) = ''Dependent''"
      "agent_turn c a (s, R, K) =
         (s\<lparr>objects := (objects s)(a := dependent_turn c (objects s a))\<rparr>, R, K)"
  | (died) "relationship_status (objects s a) \<noteq> ''Dependent''"
      "health (decay c (objects s a)) \<le> 0 \<or> sustenance (decay c (objects s a)) \<le> 0"
      "agent_turn c a (s, R, K) =
         (s\<lparr>objects := (objects s)(a := (decay c (objects s a))\<lparr>is_alive := False\<rparr>)\<rparr>,
          R @ [a], K)"
  | (acts) s1 where "relationship_status (objects s a) \<noteq> ''Dependent''"
      "\<not> (health (decay c (objects s a)) \<le> 0 \<or> sustenance (decay c (objects s a)) \<le> 0)"
      "s1 = s\<lparr>objects := (objects s)(a := fst (snd (apply_aging_and_decay c (objects s a) (gen s)))),
             gen := snd (snd (apply_aging_and_decay c (objects s a) (gen s)))\<rparr>"
      "agent_turn c a (s, R, K) = acting_turn c a (s1, R, K)"
proof (cases "relationship_status (objects s a) = ''Dependent''")
  case True
  from dependent[OF True agent_turn_dependent[OF True]] show ?thesis .
next
  case nd: False
  show ?thesis
  proof (cases "health (decay c (objects s a)) \<le> 0 \<or> sustenance (decay c (objects s a)) \<le> 0")
    case True
    from died[OF nd True agent_turn_died[OF nd True]] show ?thesis .
  next
    case False
    from acts[OF nd False refl agent_turn_acts[OF nd False]] show ?thesis .
  qed
qed

lemma agent_turn_fields:
  "agents (fst (agent_turn c a (s, R, K))) = agents s
   \<and> turns (fst (agent_turn c a (s, R, K))) = turns s
   \<and> seed (fst (agent_turn c a (s, R, K))) = seed s
   \<and> global_clock (fst (agent_turn c a (s, R, K))) = global_clock s
   \<and> metrics (fst (agent_turn c a (s, R, K))) = metrics s"
proof (cases rule: agent_turn_cases[where s=s and a=a and c=c and R=R and K=K])
  case dependent
  then show ?thesis by simp
next
  case died
  then show ?thesis by simp
next
  case (acts s1)
  then show ?thesis using acting_turn_fields[where c=c and a=a and s=s1 and R=R and K=K] by simp
qed

lemma agent_turn_alloc:
  "(next_ref (fst (agent_turn c a (s, R, K))) = next_ref s
      \<and> snd (snd (agent_turn c a (s, R, K))) = K)
   \<or> (next_ref (fst (agent_turn c a (s, R, K))) = Suc (next_ref s)
      \<and> snd (snd (agent_turn c a (s, R, K))) = K @ [next_ref s])"
proof (cases rule: agent_turn_cases[where s=s and a=a and c=c and R=R and K=K])
  case dependent
  then show ?thesis by simp
next
  case died
  then show ?thesis by simp
next
  case (acts s1)
  then show ?thesis using acting_turn_alloc[where c=c and a=a and s=s1 and R=R and K=K] by simp
qed

lemma agent_turn_removal:
  "(exit_log (fst (agent_turn c a (s, R, K))) = exit_log s
      \<and> (fst (snd (agent_turn c a (s, R, K))) = R \<or> fst (snd (agent_turn c a (s, R, K))) = R @ [a]))
   \<or> (exit_log (fst (agent_turn c a (s, R, K))) = exit_log s @ [a]
      \<and> fst (snd (agent_turn c a (s, R, K))) = R @ [a])"
proof (cases rule: agent_turn_cases[where s=s and a=a and c=c and R=R and K=K])
  case dependent
  then show ?thesis by simp
next
  case died
  then show ?thesis by simp
next
  case (acts s1)
  then show ?thesis using acting_turn_removal[where c=c and a=a and s=s1 and R=R and K=K] by auto
qed

lemma agent_turn_others:
  assumes "r \<noteq> a" and "r \<noteq> next_ref s"
  shows "beliefs_only (objects s r) (objects (fst (agent_turn c a (s, R, K))) r)"
proof (cases rule: agent_turn_cases[where s=s and a=a and c=c and R=R and K=K])
  case dependent
  then show ?thesis using assms by simp
next
  case died
  then show ?thesis using assms by simp
next
  case (acts s1)
  have "r \<noteq> next_ref s1" using assms(2) acts(3) by simp
  from acting_turn_others[OF assms(1) this, where c=c and R=R and K=K]
  show ?thesis using assms(1) acts by simp
qed

lemma agent_turn_dead_removed:
  assumes "relationship_status (objects s a) \<noteq> ''Dependent''"
      and "health (decay c (objects s a)) \<le> 0 \<or> sustenance (decay c (objects s a)) \<le> 0"
  shows "fst (snd (agent_turn c a (s, R, K))) = R @ [a]"
  by (simp add: agent_turn_died[OF assms])

lemma beliefs_only_decay:
  "beliefs_only p q \<Longrightarrow>
     health (decay c q) = health (decay c p) \<and> sustenance (decay c q) = sustenance (decay c p)
     \<and> relationship_status q = relationship_status p"
  by (simp add: beliefs_only_def stats_only_def decay_def Let_def get_health_decay_rate_def)


lemma fold_fields:
  "agents (fst (fold (agent_turn c) xs (s, R, K))) = agents s
   \<and> turns (fst (fold (agent_turn c) xs (s, R, K))) = turns s
   \<and> seed (fst (fold (agent_turn c) xs (s, R, K))) = seed s
   \<and> global_clock (fst (fold (agent_turn c) xs (s, R, K))) = global_clock s
   \<and> metrics (fst (fold (agent_turn c) xs (s, R, K))) = metrics s"
proof (induction xs arbitrary: s R K)
  case Nil
  show ?case by simp
next
  case (Cons x xs)
  obtain s' R' K' where t: "agent_turn c x (s, R, K) = (s', R', K')"
    by (metis surj_pair)
  show ?case
    using Cons.IH[where s=s' and R=R' and K=K'] agent_turn_fields[where c=c and a=x and s=s and R=R and K=K] by (simp add: t)
qed

lemma fold_alloc:
  "next_ref s \<le> next_ref (fst (fold (agent_turn c) xs (s, R, K)))
   \<and> snd (snd (fold (agent_turn c) xs (s, R, K)))
       = K @ [next_ref s ..< next_ref (fst (fold (agent_turn c) xs (s, R, K)))]"
proof (induction xs arbitrary: s R K)
  case Nil
  show ?case by simp
next
  case (Cons x xs)
  obtain s' R' K' where t: "agent_turn c x (s, R, K) = (s', R', K')"
    by (metis surj_pair)
  have a: "(next_ref s' = next_ref s \<and> K' = K) \<or> (next_ref s' = Suc (next_ref s) \<and> K' = K @ [next_ref s])"
    using agent_turn_alloc[where c=c and a=x and s=s and R=R and K=K] by (simp add: t)
  show ?case
    using Cons.IH[where s=s' and R=R' and K=K'] a by (auto simp: t upt_conv_Cons)
qed

lemma fold_removal:
  "set R \<subseteq> set (fst (snd (fold (agent_turn c) xs (s, R, K))))
   \<and> set (fst (snd (fold (agent_turn c) xs (s, R, K)))) \<subseteq> set R \<union> set xs
   \<and> set (exit_log (fst (fold (agent_turn c) xs (s, R, K))))
        \<subseteq> set (exit_log s) \<union> set (fst (snd (fold (agent_turn c) xs (s, R, K))))
   \<and> set (exit_log s) \<subseteq> set (exit_log (fst (fold (agent_turn c) xs (s, R, K))))"
proof (induction xs arbitrary: s R K)
  case Nil
  show ?case by simp
next
  case (Cons x xs)
  obtain s' R' K' where t: "agent_turn c x (s, R, K) = (s', R', K')"
    by (metis surj_pair)
  let ?Rf = "set (fst (snd (fold (agent_turn c) xs (s', R', K'))))"
  let ?Ef = "set (exit_log (fst (fold (agent_turn c) xs (s', R', K'))))"
  have ih: "set R' \<subseteq> ?Rf" "?Rf \<subseteq> set R' \<union> set xs" "?Ef \<subseteq> set (exit_log s') \<union> ?Rf"
    "set (exit_log s') \<subseteq> ?Ef"
    using Cons.IH[where s=s' and R=R' and K=K'] by simp_all
  have a: "(exit_log s' = exit_log s \<and> (R' = R \<or> R' = R @ [x]))
      \<or> (exit_log s' = exit_log s @ [x] \<and> R' = R @ [x])"
    using agent_turn_removal[where c=c and a=x and s=s and R=R and K=K] by (simp add: t)
  have r1: "set R \<subseteq> set R'" "set R' \<subseteq> set R \<union> {x}" using a by auto
  have e1: "set (exit_log s) \<subseteq> set (exit_log s')" "set (exit_log s') \<subseteq> set (exit_log s) \<union> set R'"
    using a by auto
  have 1: "set R \<subseteq> ?Rf" using r1(1) ih(1) by (rule subset_trans)
  have 2: "?Rf \<subseteq> set R \<union> set (x # xs)" using ih(2) r1(2) by auto
  have 3: "?Ef \<subseteq> set (exit_log s) \<union> ?Rf" using ih(3) e1(2) ih(1) by auto
  have 4: "set (exit_log s) \<subseteq> ?Ef" using e1(1) ih(4) by (rule subset_trans)
  show ?case using 1 2 3 4 by (simp add: t)
qed

lemma fold_others:
  assumes "r \<notin> set xs" and "r < next_ref s"
  shows "beliefs_only (objects s r) (objects (fst (fold (agent_turn c) xs (s, R, K))) r)"
  using assms
proof (induction xs arbitrary: s R K)
  case Nil
  show ?case by simp
next
  case (Cons x xs)
  obtain s' R' K' where t: "agent_turn c x (s, R, K) = (s', R', K')"
    by (metis surj_pair)
  have 1: "beliefs_only (objects s r) (objects s' r)"
    using agent_turn_others[where r=r and a=x and s=s and c=c and R=R and K=K] Cons.prems by (simp add: t)
  have "next_ref s \<le> next_ref s'"
    using agent_turn_alloc[where c=c and a=x and s=s and R=R and K=K] by (auto simp: t)
  then have 2: "beliefs_only (objects s' r) (objects (fst (fold (agent_turn c) xs (s', R', K'))) r)"
    using Cons.IH[where s=s' and R=R' and K=K'] Cons.prems by simp
  show ?case
    using beliefs_only_trans[OF 1 2] by (simp add: t)
qed

lemma fold_dead_removed:
  assumes "a \<in> set xs" and "a < next_ref s"
      and "relationship_status (objects s a) \<noteq> ''Dependent''"
      and "health (decay c (objects s a)) \<le> 0 \<or> sustenance (decay c (objects s a)) \<le> 0"
  shows "a \<in> set (fst (snd (fold (agent_turn c) xs (s, R, K))))"
  using assms
proof (induction xs arbitrary: s R K)
  case Nil
  then show ?case by simp
next
  case (Cons x xs)
  obtain s' R' K' where t: "agent_turn c x (s, R, K) = (s', R', K')"
    by (metis surj_pair)
  show ?case
  proof (cases "x = a")
    case True
    have "R' = R @ [a]"
      using agent_turn_dead_removed[OF Cons.prems(3,4), where R=R and K=K] t True by simp
    then have "a \<in> set R'" by simp
    then show ?thesis
      using fold_removal[where R=R' and c=c and xs=xs and s=s' and K=K'] by (auto simp: t)
  next
    case False
    then have in_xs: "a \<in> set xs" using Cons.prems(1) by simp
    have b: "beliefs_only (objects s a) (objects s' a)"
      using agent_turn_others[where r=a and a=x and s=s and c=c and R=R and K=K] False Cons.prems(2) by (simp add: t)
    have n: "a < next_ref s'"
      using agent_turn_alloc[where c=c and a=x and s=s and R=R and K=K] Cons.prems(2) by (auto simp: t)
    show ?thesis
      using Cons.IH[OF in_xs n, where R=R' and K=K'] beliefs_only_decay[OF b, of c] Cons.prems(3,4)
      by (simp add: t)
  qed
qed

subsection \<open>Grief and removal\<close>

lemma grieve_loss_name: "name (fst (grieve_loss c p n)) = name p"
  by (simp add: grieve_loss_def Let_def split_beta)

lemma grieve_all_name: "name (grieve_all c xs d h r) = name (h r)"
proof -
  have "name (fold (\<lambda>x h'. h'(x := fst (grieve_loss c (h' x) (name (h' d))))) xs h r)
          = name (h r)"
    by (induction xs arbitrary: h) (simp_all add: grieve_loss_name)
  then show ?thesis by (simp add: grieve_all_def)
qed

lemma grieve_all_Nil: "grieve_all c [] d h = h"
  by (simp add: grieve_all_def)

lemma grieve_all_Cons:
  "grieve_all c (x # xs) d h =
     grieve_all c xs d (h(x := fst (grieve_loss c (h x) (name (h d)))))"
  by (simp add: grieve_all_def)

lemma grieve_all_apply:
  "distinct xs \<Longrightarrow>
     grieve_all c xs d h r =
       (if r \<in> set xs then fst (grieve_loss c (h r) (name (h d))) else h r)"
proof (induction xs arbitrary: h)
  case Nil
  show ?case by (simp add: grieve_all_Nil)
next
  case (Cons x xs)
  let ?h1 = "h(x := fst (grieve_loss c (h x) (name (h d))))"
  have n: "name (?h1 d) = name (h d)" by (simp add: grieve_loss_name)
  have dx: "distinct xs" and xn: "x \<notin> set xs" using Cons.prems by simp_all
  note ih = Cons.IH[OF dx, of ?h1, unfolded n]
  show ?case
  proof (cases "r = x")
    case True
    then show ?thesis unfolding grieve_all_Cons ih using xn by simp
  next
    case False
    then show ?thesis unfolding grieve_all_Cons ih by simp
  qed
qed

lemma grief_and_remove_result:
  assumes "distinct pop" and "set ds \<subseteq> set R"
  shows "grief_and_remove c R ds (pop, h) =
     (filter (\<lambda>a. a \<notin> set ds) pop,
      \<lambda>r. if r \<in> set pop \<and> r \<notin> set R
          then fold (\<lambda>d p. fst (grieve_loss c p (name (h d)))) ds (h r) else h r)"
  using assms
proof (induction ds arbitrary: pop h)
  case Nil
  show ?case by (simp add: fun_eq_iff)
next
  case (Cons d ds)
  let ?sv = "filter (\<lambda>a. a \<noteq> d \<and> a \<notin> set R) pop"
  let ?h1 = "grieve_all c ?sv d h"
  let ?pop1 = "if d \<in> set pop then remove1 d pop else pop"
  have dR: "d \<in> set R" and dsR: "set ds \<subseteq> set R" using Cons.prems(2) by simp_all
  have sv: "set ?sv = {a \<in> set pop. a \<notin> set R}" using dR by auto
  have h1: "?h1 r = (if r \<in> set pop \<and> r \<notin> set R
                     then fst (grieve_loss c (h r) (name (h d))) else h r)" for r
    using grieve_all_apply[of ?sv c d h r] Cons.prems(1) sv by auto
  have names: "name (?h1 r) = name (h r)" for r by (rule grieve_all_name)
  have pop1: "?pop1 = filter (\<lambda>a. a \<noteq> d) pop"
    using Cons.prems(1) by (induction pop) auto
  have dist1: "distinct ?pop1" using Cons.prems(1) by simp
  have step: "grief_and_remove c R (d # ds) (pop, h) = grief_and_remove c R ds (?pop1, ?h1)"
    by (simp add: Let_def)
  have ih: "grief_and_remove c R ds (?pop1, ?h1) =
     (filter (\<lambda>a. a \<notin> set ds) ?pop1,
      \<lambda>r. if r \<in> set ?pop1 \<and> r \<notin> set R
          then fold (\<lambda>d p. fst (grieve_loss c p (name (?h1 d)))) ds (?h1 r) else ?h1 r)"
    using Cons.IH[OF dist1 dsR] .
  have p: "filter (\<lambda>a. a \<notin> set ds) ?pop1 = filter (\<lambda>a. a \<notin> set (d # ds)) pop"
    unfolding pop1 by (simp add: conj_commute)
  have f: "(\<lambda>r. if r \<in> set ?pop1 \<and> r \<notin> set R
          then fold (\<lambda>d p. fst (grieve_loss c p (name (?h1 d)))) ds (?h1 r) else ?h1 r)
       = (\<lambda>r. if r \<in> set pop \<and> r \<notin> set R
          then fold (\<lambda>d p. fst (grieve_loss c p (name (h d)))) (d # ds) (h r) else h r)"
  proof
    fix r
    have m: "r \<in> set ?pop1 \<and> r \<notin> set R \<longleftrightarrow> r \<in> set pop \<and> r \<notin> set R"
      unfolding pop1 using dR by auto
    show "(if r \<in> set ?pop1 \<and> r \<notin> set R
          then fold (\<lambda>d p. fst (grieve_loss c p (name (?h1 d)))) ds (?h1 r) else ?h1 r)
       = (if r \<in> set pop \<and> r \<notin> set R
          then fold (\<lambda>d p. fst (grieve_loss c p (name (h d)))) (d # ds) (h r) else h r)"
      unfolding m names by (simp add: h1)
  qed
  show ?case unfolding step ih p f ..
qed

subsection \<open>One tick\<close>

lemma sweep_fields:
  "agents (fst (sweep c s)) = agents s \<and> turns (fst (sweep c s)) = turns s
   \<and> seed (fst (sweep c s)) = seed s \<and> global_clock (fst (sweep c s)) = global_clock s
   \<and> metrics (fst (sweep c s)) = metrics s"
  unfolding sweep_def by (rule fold_fields)

lemma sweep_removal:
  "set (fst (snd (sweep c s))) \<subseteq> set (agents s)
   \<and> set (exit_log (fst (sweep c s))) \<subseteq> set (exit_log s) \<union> set (fst (snd (sweep c s)))"
  unfolding sweep_def
  using fold_removal[where R="[]" and c=c and xs="agents s" and s=s and K="[]"] by simp

lemma sweep_children:
  "next_ref s \<le> next_ref (fst (sweep c s))
   \<and> snd (snd (sweep c s)) = [next_ref s ..< next_ref (fst (sweep c s))]"
  unfolding sweep_def
  using fold_alloc[where c=c and xs="agents s" and s=s and R="[]" and K="[]"] by simp

lemma sweep_dead_removed:
  assumes "a \<in> set (agents s)" and "a < next_ref s"
      and "relationship_status (objects s a) \<noteq> ''Dependent''"
      and "health (decay c (objects s a)) \<le> 0 \<or> sustenance (decay c (objects s a)) \<le> 0"
  shows "a \<in> set (fst (snd (sweep c s)))"
  unfolding sweep_def using assms by (rule fold_dead_removed)

lemma step_unfold:
  assumes sw: "sweep c (s\<lparr>global_clock := global_clock s + 1\<rparr>) = (s1, R, K)"
  shows "step c s =
     (let s2 = s1\<lparr>agents := fst (grief_and_remove c R R (agents s1, objects s1)) @ K,
                  objects := snd (grief_and_remove c R R (agents s1, objects s1))\<rparr>
      in s2\<lparr>metrics := metrics s2 @ [make_snapshot s2]\<rparr>)"
  by (simp add: step_def sw Let_def split_beta)

lemma step_result:
  assumes d: "distinct (agents s)"
      and sw: "sweep c (s\<lparr>global_clock := global_clock s + 1\<rparr>) = (s1, R, K)"
  shows "agents (step c s) = filter (\<lambda>a. a \<notin> set R) (agents s) @ K"
    and "objects (step c s) =
           (\<lambda>r. if r \<in> set (agents s) \<and> r \<notin> set R
                then fold (\<lambda>d p. fst (grieve_loss c p (name (objects s1 d)))) R (objects s1 r)
                else objects s1 r)"
    and "exit_log (step c s) = exit_log s1"
    and "world (step c s) = world s1"
proof -
  have a1: "agents s1 = agents s"
    using sweep_fields[of c "s\<lparr>global_clock := global_clock s + 1\<rparr>"] sw by simp
  have g: "grief_and_remove c R R (agents s1, objects s1) =
     (filter (\<lambda>a. a \<notin> set R) (agents s),
      \<lambda>r. if r \<in> set (agents s) \<and> r \<notin> set R
          then fold (\<lambda>d p. fst (grieve_loss c p (name (objects s1 d)))) R (objects s1 r)
          else objects s1 r)"
    using grief_and_remove_result[of "agents s" R R c "objects s1"] d by (simp add: a1)
  show "agents (step c s) = filter (\<lambda>a. a \<notin> set R) (agents s) @ K"
    by (simp add: step_unfold[OF sw] Let_def g)
  show "objects (step c s) =
           (\<lambda>r. if r \<in> set (agents s) \<and> r \<notin> set R
                then fold (\<lambda>d p. fst (grieve_loss c p (name (objects s1 d)))) R (objects s1 r)
                else objects s1 r)"
    by (simp add: step_unfold[OF sw] Let_def g)
  show "exit_log (step c s) = exit_log s1"
    by (simp add: step_unfold[OF sw] Let_def)
  show "world (step c s) = world s1"
    by (simp add: step_unfold[OF sw] Let_def)
qed


subsection \<open>Evaluating the concrete configurations\<close>

lemma demo_objects:
  "objects demo_sim 0 = Person demo_params 0 ''Leo'' ''Male'' 25 (1, 1) ''Single''
      ''Acquire Wealth and Status'' 85 500"
  "objects demo_sim 1 = Person demo_params 0 ''Clara'' ''Female'' 22 (9, 9) ''Single''
      ''Find Love and a Partner'' 60 500"
  "objects demo_sim 2 = Person demo_params 0 ''Elara'' ''Female'' 30 (5, 5) ''Single''
      ''Discover the World's True Limits'' 5 500"
  "objects demo_sim (Suc 0) = Person demo_params 0 ''Clara'' ''Female'' 22 (9, 9) ''Single''
      ''Find Love and a Partner'' 60 500"
  by (simp_all add: demo_sim_def Simulation_def)

lemmas person_eval = Person_def demo_params_def clamp_def clamp_stat_def MAX_STAT_def Let_def

lemmas turn_eval =
  agent_turn_def acting_turn_def apply_aging_and_decay_def decay_def
  get_health_decay_rate_def decide_action_def get_exploration_rate_def
  random_unit_def randbelow_def choice_def get_random_action_def ACTION_codes_def
  process_action_def base_cost_def action_branch_def move_action_def move_target_def
  exit_attempt_def regenerate_def final_clamping_def
  learn_def tracker_get_def state_key_def

lemma demo_fields:
  "agents demo_sim = [0, 1, 2]" "gen demo_sim = sconst 0" "world demo_sim = World demo_params"
  "exit_log demo_sim = []" "next_ref demo_sim = 3" "global_clock demo_sim = 0"
  by (simp_all add: demo_sim_def Simulation_def)

lemma famine_fields:
  "objects (famine_sim\<lparr>global_clock := k\<rparr>) =
     (objects demo_sim)(0 := (objects demo_sim 0)\<lparr>sustenance := 0.001\<rparr>)"
  "agents (famine_sim\<lparr>global_clock := k\<rparr>) = [0, 1, 2]"
  "gen (famine_sim\<lparr>global_clock := k\<rparr>) = sconst 0"
  "world (famine_sim\<lparr>global_clock := k\<rparr>) = World demo_params"
  "exit_log (famine_sim\<lparr>global_clock := k\<rparr>) = []"
  "agents famine_sim = [0, 1, 2]" "exit_log famine_sim = []" "next_ref famine_sim = 3"
  "objects famine_sim = (objects demo_sim)(0 := (objects demo_sim 0)\<lparr>sustenance := 0.001\<rparr>)"
  by (simp_all add: famine_sim_def demo_fields)

lemma famine_sweep:
  "(case sweep demo_params (famine_sim\<lparr>global_clock := k\<rparr>) of
      (s1, R, K) \<Rightarrow> (R, K, mood (objects s1 (Suc 0)), partner_name (objects s1 (Suc 0)),
                       name (objects s1 0)))
     = ([0], [], 80, None, ''Leo'')"
  by (simp add: sweep_def famine_fields demo_objects person_eval World_def turn_eval
      cong: let_weak_cong prod.case_cong_weak)

lemma famine_parts:
  "sweep demo_params (famine_sim\<lparr>global_clock := k\<rparr>) =
     (fst (sweep demo_params (famine_sim\<lparr>global_clock := k\<rparr>)), [0], [])"
  "mood (objects (fst (sweep demo_params (famine_sim\<lparr>global_clock := k\<rparr>))) (Suc 0)) = 80"
  "partner_name (objects (fst (sweep demo_params (famine_sim\<lparr>global_clock := k\<rparr>))) (Suc 0))
     = None"
  "name (objects (fst (sweep demo_params (famine_sim\<lparr>global_clock := k\<rparr>))) 0) = ''Leo''"
  using famine_sweep[of k]
  by (cases "sweep demo_params (famine_sim\<lparr>global_clock := k\<rparr>)"; simp)+

lemma famine_dies:
  "relationship_status (objects famine_sim 0) \<noteq> ''Dependent''"
  "health (decay demo_params (objects famine_sim 0)) \<le> 0
     \<or> sustenance (decay demo_params (objects famine_sim 0)) \<le> 0"
  by (simp_all add: famine_fields demo_objects person_eval decay_def get_health_decay_rate_def)


subsection \<open>Facts about the parts of \<open>process_action\<close>\<close>

lemma action_branch_world_consts:
  "resource_max (fst (snd (action_branch c w h a other act g))) = resource_max w
   \<and> market_regen (fst (snd (action_branch c w h a other act g))) = market_regen w"
  by (simp add: action_branch_def market_action_def Let_def split_beta)

lemma process_action_world:
  "fst (snd (process_action c w h a other act g)) =
     regenerate (fst (snd (action_branch c w (h(a := base_cost c (h a))) a other act g)))"
  by (simp add: process_action_def Let_def split: prod.splits)

lemma base_cost_TiR: "TiR_score (base_cost c p) = TiR_score p"
  by (simp add: base_cost_def Let_def)

lemma low_fields:
  "objects (low_sim\<lparr>global_clock := k\<rparr>) = objects demo_sim"
  "agents (low_sim\<lparr>global_clock := k\<rparr>) = [0, 1, 2]"
  "gen (low_sim\<lparr>global_clock := k\<rparr>) = sconst 0"
  "world (low_sim\<lparr>global_clock := k\<rparr>) = (World demo_params)\<lparr>resource_level := 100\<rparr>"
  "objects low_sim = objects demo_sim" "agents low_sim = [0, 1, 2]" "gen low_sim = sconst 0"
  "world low_sim = (World demo_params)\<lparr>resource_level := 100\<rparr>"
  by (simp_all add: low_sim_def demo_fields)

lemma low_sweep:
  "resource_level (world (fst (sweep demo_params (low_sim\<lparr>global_clock := k\<rparr>)))) = 115"
  by (simp add: sweep_def low_fields demo_objects person_eval World_def turn_eval
      cong: let_weak_cong prod.case_cong_weak)

lemma low_turn:
  "resource_level (world (fst (agent_turn demo_params 0 (low_sim, [], [])))) = 105"
  by (simp add: low_fields demo_objects person_eval World_def turn_eval
      cong: let_weak_cong prod.case_cong_weak)


lemma demo_turn_parts:
  "fst (apply_aging_and_decay demo_params (objects demo_sim 0) (sconst 0)) = False"
  "snd (snd (apply_aging_and_decay demo_params (objects demo_sim 0) (sconst 0))) = sconst 0"
  "decide_action
     ((objects demo_sim)(0 := fst (snd (apply_aging_and_decay demo_params (objects demo_sim 0)
                                          (sconst 0)))))
     [0, 1, 2] 0 (sconst 0) = ((0, Some 1), sconst 0)"
  "fst (process_action demo_params (World demo_params)
     ((objects demo_sim)(0 := fst (snd (apply_aging_and_decay demo_params (objects demo_sim 0)
                                          (sconst 0)))))
     0 (Some 1) 0 (sconst 0)) = (False, 1)"
  "state_key (fst (snd (apply_aging_and_decay demo_params (objects demo_sim 0) (sconst 0)))) 0
     = ((1, 1), True, False, 0)"
  "action_utility_tracker (fst (snd (apply_aging_and_decay demo_params (objects demo_sim 0)
     (sconst 0)))) = []"
  by (simp_all add: demo_objects person_eval World_def turn_eval
      cong: let_weak_cong prod.case_cong_weak)


lemma tracker_get_update: "tracker_get (AList.update k v t) k d = v"
  by (simp add: tracker_get_def update_conv')

lemma fl64_exact_eq:
  assumes "x = real_of_int n * 2 powr real_of_int k" and "\<bar>n\<bar> < 2 ^ 53"
  shows "fl64 x = x"
  unfolding assms(1) using assms(2) by (rule fl64_exact)

lemma q_update_unfold: "q_update a r = fl64 (a + fl64 (0.5 * fl64 (r - a)))"
  by (simp add: q_update_def Let_def)

lemma q_update_weakly_between:
  assumes "fl64 a = a" and "fl64 r = r"
  shows "min a r \<le> q_update a r \<and> q_update a r \<le> max a r"
  unfolding q_update_unfold using assms by (rule fl64_update_between)

lemma q_update_fixed:
  assumes "fl64 a = a"
  shows "q_update a a = a"
  unfolding q_update_unfold using assms by simp

lemma two_powr_neg50: "(2::real) powr - 50 = 1 / 2 ^ 50"
proof -
  have "(2::real) powr - 50 = inverse (2 powr 50)"
    by (simp add: powr_minus)
  also have "(2::real) powr 50 = 2 ^ 50" by (simp del: power_numeral)
  finally show ?thesis by (simp only: inverse_eq_divide)
qed

lemma two_powr_neg51: "(2::real) powr - 51 = 1 / 2 ^ 51"
proof -
  have "(2::real) powr - 51 = inverse (2 powr 51)"
    by (simp add: powr_minus)
  also have "(2::real) powr 51 = 2 ^ 51" by (simp del: power_numeral)
  finally show ?thesis by (simp only: inverse_eq_divide)
qed

lemma doubles:
  "fl64 10 = 10" "fl64 1 = 1" "fl64 (- 9) = - 9" "fl64 (- 9 / 2) = - 9 / 2"
  "fl64 (11 / 2) = 11 / 2" "fl64 (- 5) = - 5"
  "fl64 (- 5 + 1 / 2 ^ 50) = - 5 + 1 / 2 ^ 50"
  "fl64 (- (1 / 2 ^ 50)) = - (1 / 2 ^ 50)" "fl64 (- (1 / 2 ^ 51)) = - (1 / 2 ^ 51)"
proof -
  show "fl64 10 = 10" by (rule fl64_exact_eq[where n = 10 and k = 0]) simp_all
  show "fl64 1 = 1" by (rule fl64_exact_eq[where n = 1 and k = 0]) simp_all
  show "fl64 (- 9) = - 9" by (rule fl64_exact_eq[where n = "- 9" and k = 0]) simp_all
  show "fl64 (- 9 / 2) = - 9 / 2"
    by (rule fl64_exact_eq[where n = "- 9" and k = "- 1"]) (simp_all add: powr_minus)
  show "fl64 (11 / 2) = 11 / 2"
    by (rule fl64_exact_eq[where n = 11 and k = "- 1"]) (simp_all add: powr_minus)
  show "fl64 (- 5) = - 5" by (rule fl64_exact_eq[where n = "- 5" and k = 0]) simp_all
  note p50 = two_powr_neg50
  note p51 = two_powr_neg51
  show "fl64 (- 5 + 1 / 2 ^ 50) = - 5 + 1 / 2 ^ 50"
    by (rule fl64_exact_eq[where n = "- 5 * 2 ^ 50 + 1" and k = "- 50"])
       (simp_all add: p50)
  show "fl64 (- (1 / 2 ^ 50)) = - (1 / 2 ^ 50)"
    by (rule fl64_exact_eq[where n = "- 1" and k = "- 50"]) (simp_all add: p50)
  show "fl64 (- (1 / 2 ^ 51)) = - (1 / 2 ^ 51)"
    by (rule fl64_exact_eq[where n = "- 1" and k = "- 51"]) (simp_all add: p51)
qed

lemma tie_rounds_to_even: "fl64 (- 5 + 1 / 2 ^ 51) = - 5"
proof -
  let ?v = "- 5 + 1 / 2 ^ 51 :: real"
  have v0: "?v \<noteq> 0" by simp
  have e: "binade ?v = 2"
    by (rule binade_eq) simp_all
  have q: "(2::real) powr real_of_int (2 - 52) = 1 / 2 ^ 50"
    using two_powr_neg50 by simp
  have s: "?v / (1 / 2 ^ 50) = real_of_int (- 5 * 2 ^ 50) + 1 / 2" by simp
  have f: "\<lfloor>real_of_int (- 5 * 2 ^ 50) + 1 / 2\<rfloor> = - 5 * 2 ^ 50"
    by (simp add: floor_eq_iff)
  have r: "round_half_even (real_of_int (- 5 * 2 ^ 50) + 1 / 2) = - 5 * 2 ^ 50"
    unfolding round_half_even_def Let_def f by simp
  show ?thesis
    unfolding fl64_unfold[OF v0] e q s r by simp
qed

lemma q_update_demo: "q_update 10 1 = 11 / 2" "q_update 10 10 = 10"
proof -
  have 1: "(1::real) - 10 = - 9" "(0.5::real) * - 9 = - 9 / 2" "(10::real) + - 9 / 2 = 11 / 2"
    by simp_all
  show "q_update 10 1 = 11 / 2"
    unfolding q_update_unfold 1 doubles(3) doubles(4) doubles(5) ..
  show "q_update 10 10 = 10" using doubles(1) by (rule q_update_fixed)
qed


lemma weary_fields:
  "objects (weary_sim\<lparr>global_clock := k\<rparr>) =
     (objects demo_sim)(0 := (objects demo_sim 0)\<lparr>sustenance := 40\<rparr>)"
  "agents (weary_sim\<lparr>global_clock := k\<rparr>) = [0, 1, 2]"
  "gen (weary_sim\<lparr>global_clock := k\<rparr>) = [0, 0, 12] @- sconst 0"
  "world (weary_sim\<lparr>global_clock := k\<rparr>) = World demo_params"
  "agents weary_sim = [0, 1, 2]"
  "objects weary_sim = (objects demo_sim)(0 := (objects demo_sim 0)\<lparr>sustenance := 40\<rparr>)"
  by (simp_all add: weary_sim_def demo_fields)

lemma weary_turn:
  "(case agent_turn demo_params 0 (weary_sim\<lparr>global_clock := k\<rparr>, [], []) of
      (s1, R, K) \<Rightarrow> (R, K, sustenance (objects s1 0), next_ref s1)) = ([], [], 0, 3)"
  by (simp add: weary_fields demo_objects person_eval World_def turn_eval demo_fields weary_sim_def
      cong: let_weak_cong prod.case_cong_weak)

lemma grief_fold_sustenance:
  "sustenance (fold (\<lambda>d p. fst (grieve_loss c p (f d))) R p) = sustenance p"
  by (induction R arbitrary: p) (simp_all add: grieve_loss_def Let_def split_beta)


lemma grieve_loss_effect:
  "mood (fst (grieve_loss c p n))
     = clamp_stat (mood p - (if Some n = partner_name p then 40 else 15))
   \<and> health (fst (grieve_loss c p n))
     = clamp (health p - (if Some n = partner_name p then 20 else 7.5)) 0 (MAX_HEALTH c)
   \<and> (Some n = partner_name p \<longrightarrow>
        relationship_status (fst (grieve_loss c p n)) = ''Grieving''
        \<and> partner_name (fst (grieve_loss c p n)) = None)
   \<and> (Some n \<noteq> partner_name p \<longrightarrow>
        relationship_status (fst (grieve_loss c p n)) = relationship_status p
        \<and> partner_name (fst (grieve_loss c p n)) = partner_name p)"
  by (simp add: grieve_loss_def Let_def)


lemma agent_turn_exit:
  assumes "exits_in_turn c a s"
  shows "fst (snd (agent_turn c a (s, R, K))) = R @ [a]
       \<and> exit_log (fst (agent_turn c a (s, R, K))) = exit_log s @ [a]"
proof -
  let ?ag = "apply_aging_and_decay c (objects s a) (gen s)"
  let ?s1 = "s\<lparr>objects := (objects s)(a := fst (snd ?ag)), gen := snd (snd ?ag)\<rparr>"
  let ?da = "decide_action (objects ?s1) (agents ?s1) a (gen ?s1)"
  have nd: "relationship_status (objects s a) \<noteq> ''Dependent''"
    using assms by (simp add: exits_in_turn_def)
  have alive: "\<not> fst ?ag"
    using assms by (simp add: exits_in_turn_def Let_def split_beta)
  have ex: "fst (fst (process_action c (world ?s1) (objects ?s1) a (snd (fst ?da)) (fst (fst ?da))
              (snd ?da)))"
    using assms by (simp add: exits_in_turn_def Let_def split_beta)
  have t: "agent_turn c a (s, R, K) = acting_turn c a (?s1, R, K)"
    using agent_turn_acts[OF nd, of c R K] alive by (simp add: aging_died)
  have 1: "fst (snd (acting_turn c a (?s1, R, K))) = R @ [a]"
    using ex unfolding acting_turn_exit Let_def by simp
  have "exit_log (fst (acting_turn c a (?s1, R, K))) = exit_log ?s1 @ [a]"
    using acting_turn_removal[where c=c and a=a and s="?s1" and R=R and K=K] 1 by auto
  then show ?thesis using 1 by (simp add: t)
qed

lemma sweep_exit_removed:
  assumes ag: "agents s = xs @ a # ys"
      and ex: "exits_in_turn c a (fst (fold (agent_turn c) xs (s, [], [])))"
  shows "a \<in> set (fst (snd (sweep c s))) \<and> a \<in> set (exit_log (fst (sweep c s)))"
proof -
  obtain sp Rp Kp where p: "fold (agent_turn c) xs (s, [], []) = (sp, Rp, Kp)"
    by (metis surj_pair)
  obtain sa Ra Ka where t: "agent_turn c a (sp, Rp, Kp) = (sa, Ra, Ka)"
    by (metis surj_pair)
  have e: "exits_in_turn c a sp" using ex by (simp add: p)
  have a1: "Ra = Rp @ [a]" "exit_log sa = exit_log sp @ [a]"
    using agent_turn_exit[OF e, of Rp Kp] by (simp_all add: t)
  have sw: "sweep c s = fold (agent_turn c) ys (sa, Ra, Ka)"
    by (simp add: sweep_def ag p t)
  have "set Ra \<subseteq> set (fst (snd (fold (agent_turn c) ys (sa, Ra, Ka))))"
    "set (exit_log sa) \<subseteq> set (exit_log (fst (fold (agent_turn c) ys (sa, Ra, Ka))))"
    using fold_removal[where R=Ra and c=c and xs=ys and s=sa and K=Ka] by simp_all
  then show ?thesis using a1 by (auto simp: sw)
qed


lemma exit_fields:
  "objects (exit_sim\<lparr>global_clock := k\<rparr>) = objects demo_sim"
  "agents (exit_sim\<lparr>global_clock := k\<rparr>) = [0, 1, 2]"
  "gen (exit_sim\<lparr>global_clock := k\<rparr>) = [0, 0, 0, 0, 0, 0, 0, 0, 12, 0] @- sconst 0"
  "world (exit_sim\<lparr>global_clock := k\<rparr>) = World demo_params"
  "exit_log (exit_sim\<lparr>global_clock := k\<rparr>) = []"
  "agents exit_sim = [0, 1, 2]" "exit_log exit_sim = []"
  "objects exit_sim = objects demo_sim" "world exit_sim = World demo_params"
  "gen exit_sim = [0, 0, 0, 0, 0, 0, 0, 0, 12, 0] @- sconst 0"
  by (simp_all add: exit_sim_def demo_fields)

lemma exit_stage1:
  "(case agent_turn demo_params 0 (exit_sim\<lparr>global_clock := k\<rparr>, [], []) of
      (s1, R, K) \<Rightarrow>
        (R, K, agents s1, gen s1, grid_size (world s1), exit_log s1,
         relationship_status (objects s1 0), mood (objects s1 0), partner_name (objects s1 0),
         TiR_score (objects s1 0), objects s1 (Suc 0), objects s1 2))
     = ([], [], [0, 1, 2], [0, 0, 0, 0, 0, 12, 0] @- sconst 0, 10, [],
        ''Single'', 80, None, 85, objects demo_sim (Suc 0), objects demo_sim 2)"
  by (simp add: exit_fields demo_objects person_eval World_def turn_eval
      cong: let_weak_cong prod.case_cong_weak)

lemma exit_stage2:
  assumes "agents s1 = [0, 1, 2]" "gen s1 = [0, 0, 0, 0, 0, 12, 0] @- sconst 0"
      "grid_size (world s1) = 10" "exit_log s1 = []"
      "relationship_status (objects s1 0) = ''Single''" "mood (objects s1 0) = 80"
      "partner_name (objects s1 0) = None" "TiR_score (objects s1 0) = 85"
      "objects s1 (Suc 0) = objects demo_sim (Suc 0)" "objects s1 2 = objects demo_sim 2"
  shows "(case agent_turn demo_params (Suc 0) (s1, [], []) of
      (s2, R, K) \<Rightarrow>
        (R, K, agents s2, gen s2, exit_log s2,
         relationship_status (objects s2 0), mood (objects s2 0), partner_name (objects s2 0),
         TiR_score (objects s2 0), relationship_status (objects s2 (Suc 0)),
         TiR_score (objects s2 (Suc 0)), objects s2 2))
     = ([], [], [0, 1, 2], [0, 0, 12, 0] @- sconst 0, [],
        ''Single'', 80, None, 85, ''Single'', 60, objects demo_sim 2)"
  using assms
  by (simp add: demo_objects person_eval World_def turn_eval
      cong: let_weak_cong prod.case_cong_weak)

lemma exit_stage3:
  assumes "agents s2 = [0, 1, 2]" "gen s2 = [0, 0, 12, 0] @- sconst 0" "exit_log s2 = []"
      "relationship_status (objects s2 0) = ''Single''" "mood (objects s2 0) = 80"
      "partner_name (objects s2 0) = None" "TiR_score (objects s2 0) = 85"
      "relationship_status (objects s2 (Suc 0)) = ''Single''"
      "TiR_score (objects s2 (Suc 0)) = 60" "objects s2 2 = objects demo_sim 2"
  shows "exits_in_turn demo_params 2 s2"
    and "(case agent_turn demo_params 2 (s2, [], []) of
      (s3, R, K) \<Rightarrow>
        (R, K, exit_log s3, mood (objects s3 0), partner_name (objects s3 0),
         name (objects s3 2)))
     = ([2], [], [2], 80, None, ''Elara'')"
  using assms
  by (simp_all add: exits_in_turn_def demo_objects person_eval World_def turn_eval
      record_exit_def exit_shock_def shock_def
      cong: let_weak_cong prod.case_cong_weak)


lemma exit_sweep:
  "exits_in_turn demo_params 2
     (fst (fold (agent_turn demo_params) [0, 1] (exit_sim\<lparr>global_clock := k\<rparr>, [], [])))"
  "sweep demo_params (exit_sim\<lparr>global_clock := k\<rparr>)
     = (fst (sweep demo_params (exit_sim\<lparr>global_clock := k\<rparr>)), [2], [])"
  "mood (objects (fst (sweep demo_params (exit_sim\<lparr>global_clock := k\<rparr>))) 0) = 80"
  "partner_name (objects (fst (sweep demo_params (exit_sim\<lparr>global_clock := k\<rparr>))) 0) = None"
  "name (objects (fst (sweep demo_params (exit_sim\<lparr>global_clock := k\<rparr>))) 2) = ''Elara''"
proof -
  let ?s0 = "exit_sim\<lparr>global_clock := k\<rparr>"
  obtain s1 R1 K1 where t1: "agent_turn demo_params 0 (?s0, [], []) = (s1, R1, K1)"
    by (metis surj_pair)
  have f1: "R1 = []" "K1 = []" "agents s1 = [0, 1, 2]"
    "gen s1 = [0, 0, 0, 0, 0, 12, 0] @- sconst 0" "grid_size (world s1) = 10" "exit_log s1 = []"
    "relationship_status (objects s1 0) = ''Single''" "mood (objects s1 0) = 80"
    "partner_name (objects s1 0) = None" "TiR_score (objects s1 0) = 85"
    "objects s1 (Suc 0) = objects demo_sim (Suc 0)" "objects s1 2 = objects demo_sim 2"
    using exit_stage1[of k] unfolding t1 by simp_all
  obtain s2 R2 K2 where t2: "agent_turn demo_params (Suc 0) (s1, [], []) = (s2, R2, K2)"
    by (metis surj_pair)
  have f2: "R2 = []" "K2 = []" "agents s2 = [0, 1, 2]" "gen s2 = [0, 0, 12, 0] @- sconst 0"
    "exit_log s2 = []" "relationship_status (objects s2 0) = ''Single''"
    "mood (objects s2 0) = 80" "partner_name (objects s2 0) = None"
    "TiR_score (objects s2 0) = 85" "relationship_status (objects s2 (Suc 0)) = ''Single''"
    "TiR_score (objects s2 (Suc 0)) = 60" "objects s2 2 = objects demo_sim 2"
    using exit_stage2[OF f1(3-12)] unfolding t2 by simp_all
  obtain s3 R3 K3 where t3: "agent_turn demo_params 2 (s2, [], []) = (s3, R3, K3)"
    by (metis surj_pair)
  have f3: "R3 = [2]" "K3 = []" "exit_log s3 = [2]" "mood (objects s3 0) = 80"
    "partner_name (objects s3 0) = None" "name (objects s3 2) = ''Elara''"
    using exit_stage3(2)[OF f2(3-12)] unfolding t3 by simp_all
  have p: "fold (agent_turn demo_params) [0, 1] (?s0, [], []) = (s2, [], [])"
    by (simp add: t1 f1(1,2) t2 f2(1,2))
  have sw: "sweep demo_params ?s0 = (s3, [2], [])"
    by (simp add: sweep_def exit_fields t1 f1(1,2) t2 f2(1,2) t3 f3(1,2))
  show "exits_in_turn demo_params 2
     (fst (fold (agent_turn demo_params) [0, 1] (exit_sim\<lparr>global_clock := k\<rparr>, [], [])))"
    unfolding p using exit_stage3(1)[OF f2(3-12)] by simp
  show "sweep demo_params ?s0 = (fst (sweep demo_params ?s0), [2], [])"
    unfolding sw by simp
  show "mood (objects (fst (sweep demo_params ?s0)) 0) = 80"
    "partner_name (objects (fst (sweep demo_params ?s0)) 0) = None"
    "name (objects (fst (sweep demo_params ?s0)) 2) = ''Elara''"
    unfolding sw using f3 by simp_all
qed


lemma market_action_world:
  "fst (snd (market_action c w p)) = w
   \<or> fst (snd (market_action c w p)) = w\<lparr>resource_level := resource_level w - 50\<rparr>"
  by (simp add: market_action_def Let_def)

lemma action_branch_world:
  "fst (snd (action_branch c w h a other act g)) = w
   \<or> fst (snd (action_branch c w h a other act g)) = w\<lparr>resource_level := resource_level w - 50\<rparr>"
  using market_action_world[of c w "h a"]
  by (auto simp: action_branch_def Let_def split_beta)

lemma step_world: "world (step c s) = world (fst (sweep c (s\<lparr>global_clock := global_clock s + 1\<rparr>)))"
  by (simp add: step_def Let_def split_beta)

subsection \<open>The resource pool\<close>

text \<open>
  Claim C2. After every call of \<open>process_action\<close>, from any world whose maximum is not
  negative and for any agent, target, action code and random source, the resource level
  lies between 0 and the maximum, and the maximum is the one before the call; so the
  bounds hold after each call of any sequence of calls.
\<close>

theorem resource_level_bounded:
  assumes "0 \<le> resource_max w"
  shows "0 \<le> resource_level (fst (snd (process_action c w h a other act g)))
       \<and> resource_level (fst (snd (process_action c w h a other act g)))
           \<le> resource_max (fst (snd (process_action c w h a other act g)))
       \<and> resource_max (fst (snd (process_action c w h a other act g))) = resource_max w"
  using assms clamp_bounds[of 0 "resource_max w"]
  by (simp add: process_action_world regenerate_def action_branch_world_consts)

theorem resource_level_bounded_witness:
  "0 \<le> resource_max (World demo_params)
   \<and> 0 \<le> resource_level (fst (snd (process_action demo_params (World demo_params)
              (objects demo_sim) 2 None 4 (sconst 0))))
   \<and> resource_level (fst (snd (process_action demo_params (World demo_params)
              (objects demo_sim) 2 None 4 (sconst 0)))) \<le> 1000"
proof -
  have h: "0 \<le> resource_max (World demo_params)"
    by (simp add: World_def demo_params_def)
  have m: "resource_max (World demo_params) = 1000"
    by (simp add: World_def demo_params_def)
  show ?thesis
    using h resource_level_bounded[where w = "World demo_params" and c = demo_params
        and h = "objects demo_sim" and a = 2 and other = None and act = 4 and g = "sconst 0"]
    by (simp add: m)
qed

text \<open>
  Claim C6. A market visit by an agent standing on the market cell while the pool holds
  at least 50: the branch of the action takes exactly 50 from the pool, the pool after
  the call is that amount regenerated and capped, and the sustenance of the agent after
  the call is its sustenance after the base cost plus 65, capped at 100: not below the
  old value (or 100) and never above 100.
\<close>

theorem market_visit:
  assumes "position (h a) = market_pos w" and "50 \<le> resource_level w"
  shows "resource_level (fst (snd (action_branch c w (h(a := base_cost c (h a))) a other 4 g)))
           = resource_level w - 50
       \<and> resource_level (fst (snd (process_action c w h a other 4 g)))
           = clamp (resource_level w - 50 + market_regen w) 0 (resource_max w)
       \<and> sustenance (fst (snd (snd (process_action c w h a other 4 g))) a)
           = min 100 (clamp_stat (sustenance (h a) - 0.5) + 65)
       \<and> min 100 (sustenance (h a))
           \<le> sustenance (fst (snd (snd (process_action c w h a other 4 g))) a)
       \<and> sustenance (fst (snd (snd (process_action c w h a other 4 g))) a) \<le> 100"
  using assms
  apply (simp add: process_action_def action_branch_def market_action_def Let_def
      base_cost_def regenerate_def final_clamping_def split: prod.splits)
  apply (simp add: clamp_stat_def clamp_def MAX_STAT_def)
  done

theorem market_visit_witness:
  "position (objects demo_sim 2) = market_pos (World demo_params)
   \<and> 50 \<le> resource_level (World demo_params)
   \<and> resource_level (fst (snd (action_branch demo_params (World demo_params)
        ((objects demo_sim)(2 := base_cost demo_params (objects demo_sim 2))) 2 None 4
        (sconst 0)))) = 950
   \<and> sustenance (fst (snd (snd (process_action demo_params (World demo_params)
        (objects demo_sim) 2 None 4 (sconst 0)))) 2) \<le> 100"
proof -
  have h1: "position (objects demo_sim 2) = market_pos (World demo_params)"
    by (simp add: demo_objects Person_def World_def demo_params_def)
  have h2: "50 \<le> resource_level (World demo_params)"
    by (simp add: World_def demo_params_def)
  have lvl: "resource_level (World demo_params) = 1000"
    by (simp add: World_def demo_params_def)
  show ?thesis
    using h1 h2 market_visit[where h = "objects demo_sim" and a = 2
        and w = "World demo_params" and c = demo_params and other = None and g = "sconst 0"]
    by (simp add: lvl)
qed

subsection \<open>The exit gate\<close>

text \<open>
  Claim C3. An exit attempt (action code 12) by an agent whose alignment score is at
  least 10 returns the exit flag false, for every world, store, target and random
  source.
\<close>

theorem exit_never_succeeds:
  assumes "10 \<le> TiR_score (h a)"
  shows "fst (fst (process_action c w h a other 12 g)) = False"
  using assms
  by (simp add: process_action_def action_branch_def exit_attempt_def Let_def base_cost_TiR
      split: prod.splits)

theorem exit_never_succeeds_witness:
  "10 \<le> TiR_score (objects demo_sim 0)
   \<and> fst (fst (process_action demo_params (World demo_params) (objects demo_sim) 0 None 12
        (sconst 0))) = False"
proof -
  have h: "10 \<le> TiR_score (objects demo_sim 0)"
    by (simp add: demo_objects Person_def)
  show ?thesis
    using h exit_never_succeeds[where h = "objects demo_sim" and a = 0 and c = demo_params
        and w = "World demo_params" and other = None and g = "sconst 0"]
    by simp
qed

subsection \<open>Belief sharing\<close>

lemma scaled_between:
  fixes t a f :: real
  assumes "0 \<le> f" "f \<le> 1"
  shows "min t a \<le> t + (a - t) * f \<and> t + (a - t) * f \<le> max t a"
proof (cases "t \<le> a")
  case True
  then have "0 \<le> (a - t) * f" using assms by simp
  moreover have "(a - t) * f \<le> (a - t) * 1" using True assms by (intro mult_left_mono) auto
  ultimately show ?thesis using True by simp
next
  case False
  then have "(a - t) * f \<le> 0" using assms by (simp add: mult_nonpos_nonneg)
  moreover have "(t - a) * f \<le> (t - a) * 1" using False assms by (intro mult_left_mono) auto
  ultimately show ?thesis using False by (simp add: algebra_simps)
qed

text \<open>
  Claim C10. When the alignment scores of the acting agent and of the target and the
  reputation of the acting agent lie between 0 and 100, the new score of the target
  lies weakly between its old score and the score of the acting agent, it moves by at
  most 0.225 times the distance of the two scores, and the score of the acting agent
  is the same after the call (also when the target is the acting agent itself).
\<close>

theorem share_belief_between:
  assumes "0 \<le> TiR_score (h a)" "TiR_score (h a) \<le> 100"
      and "0 \<le> TiR_score (h t)" "TiR_score (h t) \<le> 100"
      and "0 \<le> reputation (h a)" "reputation (h a) \<le> 100"
  shows "min (TiR_score (h t)) (TiR_score (h a)) \<le> TiR_score (fst (share_belief h a t) t)
       \<and> TiR_score (fst (share_belief h a t) t) \<le> max (TiR_score (h t)) (TiR_score (h a))
       \<and> \<bar>TiR_score (fst (share_belief h a t) t) - TiR_score (h t)\<bar>
            \<le> 0.225 * \<bar>TiR_score (h a) - TiR_score (h t)\<bar>
       \<and> TiR_score (fst (share_belief h a t) a) = TiR_score (h a)"
proof -
  define f where "f = 0.15 * ((reputation (h a) + 50) / 100)"
  define T where "T = TiR_score (h t)"
  define A where "A = TiR_score (h a)"
  have f: "0 \<le> f" "f \<le> 0.225" "f \<le> 1" using assms(5,6) by (simp_all add: f_def)
  have btw: "min T A \<le> T + (A - T) * f \<and> T + (A - T) * f \<le> max T A"
    using scaled_between[OF f(1) f(3)] by simp
  have rng: "0 \<le> T + (A - T) * f" "T + (A - T) * f \<le> 100"
    using btw assms(1-4) by (auto simp: T_def A_def min_def max_def split: if_splits)
  have "fst (share_belief h a t) t = (h t)\<lparr>TiR_score := clamp (T + (A - T) * f) 0 100\<rparr>"
    by (simp only: share_belief_def Let_def fst_conv fun_upd_same T_def A_def f_def mult.assoc)
  then have new: "TiR_score (fst (share_belief h a t) t) = T + (A - T) * f"
    using rng by (simp add: clamp_inside)
  have mag: "\<bar>(A - T) * f\<bar> \<le> 0.225 * \<bar>A - T\<bar>"
  proof -
    have "\<bar>(A - T) * f\<bar> = \<bar>A - T\<bar> * f" using f(1) by (simp add: abs_mult)
    also have "\<dots> \<le> \<bar>A - T\<bar> * 0.225" using f(2) by (intro mult_left_mono) auto
    finally show ?thesis by simp
  qed
  have self: "TiR_score (fst (share_belief h a t) a) = A"
  proof (cases "a = t")
    case True
    then show ?thesis using new by (simp add: T_def A_def)
  next
    case False
    then show ?thesis by (simp add: share_belief_def Let_def A_def)
  qed
  show ?thesis using btw mag self unfolding new by (simp add: T_def A_def)
qed

theorem share_belief_between_witness:
  "0 \<le> TiR_score (objects demo_sim 0) \<and> TiR_score (objects demo_sim 0) \<le> 100
   \<and> 0 \<le> TiR_score (objects demo_sim 1) \<and> TiR_score (objects demo_sim 1) \<le> 100
   \<and> 0 \<le> reputation (objects demo_sim 0) \<and> reputation (objects demo_sim 0) \<le> 100
   \<and> 60 \<le> TiR_score (fst (share_belief (objects demo_sim) 0 1) 1)
   \<and> TiR_score (fst (share_belief (objects demo_sim) 0 1) 1) \<le> 85
   \<and> TiR_score (fst (share_belief (objects demo_sim) 0 1) 0) = 85"
proof -
  have h: "0 \<le> TiR_score (objects demo_sim 0)" "TiR_score (objects demo_sim 0) \<le> 100"
    "0 \<le> TiR_score (objects demo_sim 1)" "TiR_score (objects demo_sim 1) \<le> 100"
    "0 \<le> reputation (objects demo_sim 0)" "reputation (objects demo_sim 0) \<le> 100"
    by (simp_all add: demo_objects Person_def)
  have v: "TiR_score (objects demo_sim 0) = 85" "TiR_score (objects demo_sim 1) = 60"
    "TiR_score (objects demo_sim (Suc 0)) = 60"
    by (simp_all add: demo_objects Person_def)
  show ?thesis
    using h share_belief_between[where h = "objects demo_sim" and a = 0 and t = 1]
    by (simp add: v)
qed

subsection \<open>Removal and grief\<close>

text \<open>
  Claim C9. In one tick of a simulation whose population list has no repeated object,
  with \<open>R\<close> the removal list that the loop over the population builds: the population
  after the tick is the old one without the members of \<open>R\<close>, followed by the new
  children; every agent recorded as exited during the tick is in \<open>R\<close>; every
  non-dependent agent that the aging decay kills is in \<open>R\<close>; every agent whose turn,
  taken from the state the loop has reached when it comes to the agent, ends with
  \<open>process_action\<close> returning the exit flag true is in \<open>R\<close> and in the exit log; and
  every member of the population that is not in \<open>R\<close> has received one \<open>grieve_loss\<close> for
  each entry of \<open>R\<close>, in order, on top of what the loop did to it (the ideological shock
  of an exit included).
\<close>

theorem grief_on_every_removal:
  assumes d: "distinct (agents s)"
      and sw: "sweep c (s\<lparr>global_clock := global_clock s + 1\<rparr>) = (s1, R, K)"
  shows "agents (step c s) = filter (\<lambda>a. a \<notin> set R) (agents s) @ K
       \<and> set (exit_log (step c s)) \<subseteq> set (exit_log s) \<union> set R
       \<and> (\<forall>a \<in> set (agents s). a < next_ref s
             \<and> relationship_status (objects s a) \<noteq> ''Dependent''
             \<and> (health (decay c (objects s a)) \<le> 0 \<or> sustenance (decay c (objects s a)) \<le> 0)
            \<longrightarrow> a \<in> set R)
       \<and> (\<forall>xs a ys. agents s = xs @ a # ys
             \<and> exits_in_turn c a
                 (fst (fold (agent_turn c) xs (s\<lparr>global_clock := global_clock s + 1\<rparr>, [], [])))
            \<longrightarrow> a \<in> set R \<and> a \<in> set (exit_log (step c s)))
       \<and> (\<forall>r \<in> set (agents s). r \<notin> set R \<longrightarrow>
             objects (step c s) r =
               fold (\<lambda>d p. fst (grieve_loss c p (name (objects s1 d)))) R (objects s1 r))"
proof -
  let ?s0 = "s\<lparr>global_clock := global_clock s + 1\<rparr>"
  have 1: "agents (step c s) = filter (\<lambda>a. a \<notin> set R) (agents s) @ K"
    using step_result(1)[OF d sw] .
  have 2: "set (exit_log (step c s)) \<subseteq> set (exit_log s) \<union> set R"
    using sweep_removal[of c ?s0] by (simp add: step_result(3)[OF d sw] sw)
  have 3: "\<forall>a \<in> set (agents s). a < next_ref s
             \<and> relationship_status (objects s a) \<noteq> ''Dependent''
             \<and> (health (decay c (objects s a)) \<le> 0 \<or> sustenance (decay c (objects s a)) \<le> 0)
            \<longrightarrow> a \<in> set R"
  proof (intro ballI impI)
    fix a
    assume "a \<in> set (agents s)"
      and "a < next_ref s \<and> relationship_status (objects s a) \<noteq> ''Dependent''
             \<and> (health (decay c (objects s a)) \<le> 0 \<or> sustenance (decay c (objects s a)) \<le> 0)"
    then show "a \<in> set R"
      using sweep_dead_removed[of a ?s0 c] by (simp add: sw)
  qed
  have 4: "\<forall>xs a ys. agents s = xs @ a # ys
             \<and> exits_in_turn c a (fst (fold (agent_turn c) xs (?s0, [], [])))
            \<longrightarrow> a \<in> set R \<and> a \<in> set (exit_log (step c s))"
  proof (intro allI impI)
    fix xs a ys
    assume h: "agents s = xs @ a # ys
        \<and> exits_in_turn c a (fst (fold (agent_turn c) xs (?s0, [], [])))"
    have ag: "agents ?s0 = xs @ a # ys" using h by simp
    have ex: "exits_in_turn c a (fst (fold (agent_turn c) xs (?s0, [], [])))" using h by simp
    show "a \<in> set R \<and> a \<in> set (exit_log (step c s))"
      using sweep_exit_removed[OF ag ex] by (simp add: sw step_result(3)[OF d sw])
  qed
  have 5: "\<forall>r \<in> set (agents s). r \<notin> set R \<longrightarrow>
             objects (step c s) r =
               fold (\<lambda>d p. fst (grieve_loss c p (name (objects s1 d)))) R (objects s1 r)"
    by (simp add: step_result(2)[OF d sw])
  from 1 2 3 4 5 show ?thesis by (intro conjI)
qed

theorem grief_on_every_removal_witness:
  "distinct (agents famine_sim)
   \<and> sweep demo_params (famine_sim\<lparr>global_clock := global_clock famine_sim + 1\<rparr>)
       = (fst (sweep demo_params (famine_sim\<lparr>global_clock := global_clock famine_sim + 1\<rparr>)),
          [0], [])
   \<and> 0 \<in> set (agents famine_sim) \<and> 0 < next_ref famine_sim
   \<and> relationship_status (objects famine_sim 0) \<noteq> ''Dependent''
   \<and> (health (decay demo_params (objects famine_sim 0)) \<le> 0
        \<or> sustenance (decay demo_params (objects famine_sim 0)) \<le> 0)
   \<and> 1 \<in> set (agents famine_sim) \<and> 1 \<notin> set [0::nat]
   \<and> agents (step demo_params famine_sim) = [1, 2]
   \<and> mood (objects (step demo_params famine_sim) 1) = 65
   \<and> distinct (agents exit_sim)
   \<and> sweep demo_params (exit_sim\<lparr>global_clock := global_clock exit_sim + 1\<rparr>)
       = (fst (sweep demo_params (exit_sim\<lparr>global_clock := global_clock exit_sim + 1\<rparr>)),
          [2], [])
   \<and> agents exit_sim = [0, 1] @ 2 # []
   \<and> exits_in_turn demo_params 2
        (fst (fold (agent_turn demo_params) [0, 1]
               (exit_sim\<lparr>global_clock := global_clock exit_sim + 1\<rparr>, [], [])))
   \<and> 2 \<in> set (exit_log (step demo_params exit_sim))
   \<and> 0 \<in> set (agents exit_sim) \<and> 0 \<notin> set [2::nat]
   \<and> agents (step demo_params exit_sim) = [0, 1]
   \<and> mood (objects (step demo_params exit_sim) 0) = 65"
proof -
  let ?s1 = "fst (sweep demo_params (famine_sim\<lparr>global_clock := global_clock famine_sim + 1\<rparr>))"
  have d: "distinct (agents famine_sim)" by (simp add: famine_fields)
  have sw: "sweep demo_params (famine_sim\<lparr>global_clock := global_clock famine_sim + 1\<rparr>)
       = (?s1, [0], [])"
    by (rule famine_parts(1))
  note g = grief_on_every_removal[OF d sw]
  have a: "agents (step demo_params famine_sim) = [1, 2]"
    using g by (simp add: famine_fields)
  have "objects (step demo_params famine_sim) 1 =
      fold (\<lambda>d p. fst (grieve_loss demo_params p (name (objects ?s1 d)))) [0] (objects ?s1 1)"
    using g by (simp add: famine_fields)
  then have m: "mood (objects (step demo_params famine_sim) 1) = 65"
    by (simp add: famine_parts(2-4) grieve_loss_def clamp_stat_def clamp_def MAX_STAT_def Let_def)
  have i: "0 \<in> set (agents famine_sim)" "0 < next_ref famine_sim"
    "1 \<in> set (agents famine_sim)" "1 \<notin> set [0::nat]"
    by (simp_all add: famine_fields)
  let ?e1 = "fst (sweep demo_params (exit_sim\<lparr>global_clock := global_clock exit_sim + 1\<rparr>))"
  have de: "distinct (agents exit_sim)" by (simp add: exit_fields)
  have swe: "sweep demo_params (exit_sim\<lparr>global_clock := global_clock exit_sim + 1\<rparr>)
       = (?e1, [2], [])"
    by (rule exit_sweep(2))
  note ge = grief_on_every_removal[OF de swe]
  have ag: "agents exit_sim = [0, 1] @ 2 # []" by (simp add: exit_fields)
  have ex: "exits_in_turn demo_params 2
        (fst (fold (agent_turn demo_params) [0, 1]
               (exit_sim\<lparr>global_clock := global_clock exit_sim + 1\<rparr>, [], [])))"
    by (rule exit_sweep(1))
  have el: "2 \<in> set (exit_log (step demo_params exit_sim))"
    using ge ag ex by blast
  have ae: "agents (step demo_params exit_sim) = [0, 1]"
    using ge by (simp add: exit_fields)
  have ie: "0 \<in> set (agents exit_sim)" "0 \<notin> set [2::nat]"
    by (simp_all add: exit_fields)
  have "objects (step demo_params exit_sim) 0 =
      fold (\<lambda>d p. fst (grieve_loss demo_params p (name (objects ?e1 d)))) [2] (objects ?e1 0)"
    using ge by (simp add: exit_fields)
  then have me: "mood (objects (step demo_params exit_sim) 0) = 65"
    by (simp add: exit_sweep(3-5) grieve_loss_def clamp_stat_def clamp_def MAX_STAT_def Let_def)
  from d sw i(1,2) famine_dies i(3,4) a m de swe ag ex el ie ae me show ?thesis
    by (intro conjI)
qed

subsection \<open>Dependent agents\<close>

text \<open>
  Claim C7. The turn of an agent whose status is Dependent only counts one more survived
  tick for it and, once the count has reached the maturation threshold, sets its status
  to Single and its age to 10. Nothing else changes: the world, the random generator
  (no draw is consumed), the lists of the loop, every other object and the value memory
  of the agent are as before, so neither the decision policy nor the action resolution
  has run for it.
\<close>

theorem dependent_never_acts:
  assumes "relationship_status (objects s a) = ''Dependent''"
  shows "agent_turn c a (s, R, K) =
           (s\<lparr>objects := (objects s)(a :=
                (if CYCLES_PER_DEPENDENT_YEAR c \<le> turns_survived (objects s a) + 1
                 then (objects s a)\<lparr>turns_survived := turns_survived (objects s a) + 1,
                        relationship_status := ''Single'', age_years := 10\<rparr>
                 else (objects s a)\<lparr>turns_survived := turns_survived (objects s a) + 1\<rparr>))\<rparr>,
            R, K)
       \<and> world (fst (agent_turn c a (s, R, K))) = world s
       \<and> gen (fst (agent_turn c a (s, R, K))) = gen s
       \<and> (\<forall>r. r \<noteq> a \<longrightarrow> objects (fst (agent_turn c a (s, R, K))) r = objects s r)
       \<and> action_utility_tracker (objects (fst (agent_turn c a (s, R, K))) a)
           = action_utility_tracker (objects s a)"
  by (simp add: agent_turn_dependent[OF assms] dependent_turn_def Let_def)


theorem dependent_never_acts_witness:
  "relationship_status (objects nursery_sim 2) = ''Dependent''
   \<and> (2::nat) \<noteq> 0
   \<and> relationship_status (objects (fst (agent_turn demo_params 2 (nursery_sim, [], []))) 2)
       = ''Single''
   \<and> age_years (objects (fst (agent_turn demo_params 2 (nursery_sim, [], []))) 2) = 10
   \<and> gen (fst (agent_turn demo_params 2 (nursery_sim, [], []))) = gen nursery_sim
   \<and> objects (fst (agent_turn demo_params 2 (nursery_sim, [], []))) 0 = objects nursery_sim 0"
proof -
  have h: "relationship_status (objects nursery_sim 2) = ''Dependent''"
    by (simp add: nursery_sim_def)
  have t: "turns_survived (objects nursery_sim 2) = 364"
    "CYCLES_PER_DEPENDENT_YEAR demo_params = 365"
    by (simp_all add: nursery_sim_def demo_params_def)
  show ?thesis
    using h dependent_never_acts[where s = nursery_sim and a = 2 and c = demo_params
        and R = "[]" and K = "[]"]
    by (simp add: t)
qed


subsection \<open>Regeneration of the pool\<close>

text \<open>
  Claim C1, as the code has it. Regeneration is applied once in every call of
  \<open>process_action\<close>, that is once for each agent that acts in the tick: the turn of a
  dependent agent or of an agent that dies in the aging step leaves the world as it is,
  and the turn of any other agent ends with one regeneration of the pool, after the
  market branch has taken 50 from it or not. The world after a tick is the world after
  the turns of all members of the population, in order.
\<close>

theorem regeneration_once_per_action:
  "(relationship_status (objects s a) = ''Dependent''
      \<or> health (decay c (objects s a)) \<le> 0 \<or> sustenance (decay c (objects s a)) \<le> 0
     \<longrightarrow> world (fst (agent_turn c a (s, R, K))) = world s)
   \<and> (\<not> (relationship_status (objects s a) = ''Dependent''
      \<or> health (decay c (objects s a)) \<le> 0 \<or> sustenance (decay c (objects s a)) \<le> 0)
     \<longrightarrow> world (fst (agent_turn c a (s, R, K))) = regenerate (world s)
         \<or> world (fst (agent_turn c a (s, R, K)))
             = regenerate ((world s)\<lparr>resource_level := resource_level (world s) - 50\<rparr>))
   \<and> world (step c s)
       = world (fst (fold (agent_turn c) (agents s) (s\<lparr>global_clock := global_clock s + 1\<rparr>, [], [])))"
proof (intro conjI impI)
  assume "relationship_status (objects s a) = ''Dependent''
      \<or> health (decay c (objects s a)) \<le> 0 \<or> sustenance (decay c (objects s a)) \<le> 0"
  then show "world (fst (agent_turn c a (s, R, K))) = world s"
    by (cases rule: agent_turn_cases[where s=s and a=a and c=c and R=R and K=K]) auto
next
  assume n: "\<not> (relationship_status (objects s a) = ''Dependent''
      \<or> health (decay c (objects s a)) \<le> 0 \<or> sustenance (decay c (objects s a)) \<le> 0)"
  show "world (fst (agent_turn c a (s, R, K))) = regenerate (world s)
         \<or> world (fst (agent_turn c a (s, R, K)))
             = regenerate ((world s)\<lparr>resource_level := resource_level (world s) - 50\<rparr>)"
  proof (cases rule: agent_turn_cases[where s=s and a=a and c=c and R=R and K=K])
    case dependent
    then show ?thesis using n by simp
  next
    case died
    then show ?thesis using n by simp
  next
    case (acts s1)
    have w: "world s1 = world s" using acts(3) by simp
    obtain act tgt g2 where da: "decide_action (objects s1) (agents s1) a (gen s1) = ((act, tgt), g2)"
      by (metis surj_pair)
    have "world (fst (acting_turn c a (s1, R, K)))
        = regenerate (fst (snd (action_branch c (world s)
             ((objects s1)(a := base_cost c (objects s1 a))) a tgt act g2)))"
      by (simp add: acting_turn_world da Let_def process_action_world w)
    then show ?thesis
      using action_branch_world[of c "world s" "(objects s1)(a := base_cost c (objects s1 a))" a tgt act g2]
        acts(4) by auto
  qed
next
  show "world (step c s)
       = world (fst (fold (agent_turn c) (agents s) (s\<lparr>global_clock := global_clock s + 1\<rparr>, [], [])))"
    by (simp add: step_world sweep_def)
qed

theorem regeneration_once_per_action_witness:
  "(relationship_status (objects famine_sim 0) = ''Dependent''
      \<or> health (decay demo_params (objects famine_sim 0)) \<le> 0
      \<or> sustenance (decay demo_params (objects famine_sim 0)) \<le> 0)
   \<and> world (fst (agent_turn demo_params 0 (famine_sim, [], []))) = world famine_sim
   \<and> \<not> (relationship_status (objects low_sim 0) = ''Dependent''
      \<or> health (decay demo_params (objects low_sim 0)) \<le> 0
      \<or> sustenance (decay demo_params (objects low_sim 0)) \<le> 0)
   \<and> world (fst (agent_turn demo_params 0 (low_sim, [], []))) = regenerate (world low_sim)"
proof -
  have d: "relationship_status (objects famine_sim 0) = ''Dependent''
      \<or> health (decay demo_params (objects famine_sim 0)) \<le> 0
      \<or> sustenance (decay demo_params (objects famine_sim 0)) \<le> 0"
    using famine_dies(2) by blast
  have n: "\<not> (relationship_status (objects low_sim 0) = ''Dependent''
      \<or> health (decay demo_params (objects low_sim 0)) \<le> 0
      \<or> sustenance (decay demo_params (objects low_sim 0)) \<le> 0)"
    by (simp add: low_fields demo_objects person_eval decay_def get_health_decay_rate_def)
  have 1: "world (fst (agent_turn demo_params 0 (famine_sim, [], []))) = world famine_sim"
    using d regeneration_once_per_action[where s = famine_sim and a = 0 and c = demo_params
        and R = "[]" and K = "[]"]
    by blast
  have "world (fst (agent_turn demo_params 0 (low_sim, [], []))) = regenerate (world low_sim)
     \<or> world (fst (agent_turn demo_params 0 (low_sim, [], [])))
         = regenerate ((world low_sim)\<lparr>resource_level := resource_level (world low_sim) - 50\<rparr>)"
    using n regeneration_once_per_action[where s = low_sim and a = 0 and c = demo_params
        and R = "[]" and K = "[]"]
    by blast
  moreover have "resource_level (regenerate ((world low_sim)
      \<lparr>resource_level := resource_level (world low_sim) - 50\<rparr>)) = 55"
    by (simp add: low_fields World_def demo_params_def regenerate_def clamp_def)
  ultimately have 2: "world (fst (agent_turn demo_params 0 (low_sim, [], []))) = regenerate (world low_sim)"
    using low_turn by auto
  from d 1 n 2 show ?thesis by (intro conjI)
qed

text \<open>
  Claim C1 as stated fails: with the pool at 100, a rate of 5 and a maximum of 1000,
  three agents act in the first tick (none of them at the market) and the pool stands
  at 115 after the tick, where one regeneration would give 105.
\<close>

theorem regeneration_counterexample:
  "resource_level (world low_sim) = 100 \<and> market_regen (world low_sim) = 5
   \<and> resource_max (world low_sim) = 1000
   \<and> resource_level (regenerate (world low_sim)) = 105
   \<and> resource_level (world (step demo_params low_sim)) = 115"
proof -
  have 1: "resource_level (world low_sim) = 100" "market_regen (world low_sim) = 5"
    "resource_max (world low_sim) = 1000" "resource_level (regenerate (world low_sim)) = 105"
    by (simp_all add: low_fields World_def demo_params_def regenerate_def clamp_def)
  have 2: "resource_level (world (step demo_params low_sim)) = 115"
    by (simp add: step_world low_sweep)
  from 1 2 show ?thesis by (intro conjI)
qed


subsection \<open>The learning update\<close>

text \<open>
  Claim C4, as the code has it. In the turn of an agent that acts, with \<open>p1\<close> the agent
  after the aging step (its state when the action is chosen and before it is resolved),
  \<open>act\<close> the chosen action and \<open>dU\<close> the reward that \<open>process_action\<close> returns: the key is
  built from the position and the two stat buckets of \<open>p1\<close> and from \<open>act\<close>; the old value
  is the entry of the value memory under the key, or 10 when there is none; the value
  memory after the turn is the old one with the key set to the new value, which is
  \<open>old + 0.5 * (dU - old)\<close> computed in double precision. For doubles \<open>old\<close> and \<open>dU\<close>
  the new value lies between them, both ends included, and it is the old value when
  the reward is the old value.
\<close>

theorem learning_update:
  assumes nd: "relationship_status (objects s a) \<noteq> ''Dependent''"
      and ag: "apply_aging_and_decay c (objects s a) (gen s) = (False, p1, g1)"
      and dec: "decide_action ((objects s)(a := p1)) (agents s) a g1 = ((act, tgt), g2)"
      and pa: "process_action c (world s) ((objects s)(a := p1)) a tgt act g2
                 = ((ex, dU), w3, h3, g3)"
      and fresh: "a \<noteq> next_ref s"
  shows "(let key = state_key p1 act;
              old = tracker_get (action_utility_tracker p1) key 10;
              new = fl64 (old + fl64 (0.5 * fl64 (dU - old)));
              after = action_utility_tracker (objects (fst (agent_turn c a (s, R, K))) a)
          in key = (position p1, 50 < sustenance p1, 50 < reputation p1, act)
           \<and> after = AList.update key new (action_utility_tracker p1)
           \<and> tracker_get after key 10 = new
           \<and> new = q_update old dU)
       \<and> (\<forall>x r. fl64 x = x \<and> fl64 r = r \<longrightarrow>
              min x r \<le> q_update x r \<and> q_update x r \<le> max x r)
       \<and> (\<forall>x. fl64 x = x \<longrightarrow> q_update x x = x)"
proof -
  let ?s1 = "s\<lparr>objects := (objects s)(a := p1), gen := g1\<rparr>"
  let ?key = "state_key p1 act"
  let ?old = "tracker_get (action_utility_tracker p1) ?key 10"
  let ?new = "fl64 (?old + fl64 (0.5 * fl64 (dU - ?old)))"
  have alive: "\<not> (health (decay c (objects s a)) \<le> 0 \<or> sustenance (decay c (objects s a)) \<le> 0)"
    using aging_died[of c "objects s a" "gen s"] ag by simp
  have t: "agent_turn c a (s, R, K) = acting_turn c a (?s1, R, K)"
    using agent_turn_acts[OF nd alive, of R K] ag by simp
  have f: "a \<noteq> next_ref ?s1" using fresh by simp
  have q: "q_update ?old dU = ?new" by (rule q_update_unfold)
  have after: "action_utility_tracker (objects (fst (agent_turn c a (s, R, K))) a)
      = AList.update ?key ?new (action_utility_tracker p1)"
    unfolding t q[symmetric] using acting_turn_tracker[OF f, of c R K]
    by (simp add: dec pa Let_def)
  have k: "?key = (position p1, 50 < sustenance p1, 50 < reputation p1, act)"
    by (simp add: state_key_def)
  have g: "tracker_get (AList.update ?key ?new (action_utility_tracker p1)) ?key 10 = ?new"
    by (rule tracker_get_update)
  have 1: "let key = state_key p1 act;
              old = tracker_get (action_utility_tracker p1) key 10;
              new = fl64 (old + fl64 (0.5 * fl64 (dU - old)));
              after = action_utility_tracker (objects (fst (agent_turn c a (s, R, K))) a)
          in key = (position p1, 50 < sustenance p1, 50 < reputation p1, act)
           \<and> after = AList.update key new (action_utility_tracker p1)
           \<and> tracker_get after key 10 = new
           \<and> new = q_update old dU"
    unfolding Let_def after
  proof (intro conjI)
    show "?key = (position p1, 50 < sustenance p1, 50 < reputation p1, act)" by (rule k)
    show "AList.update ?key ?new (action_utility_tracker p1)
        = AList.update ?key ?new (action_utility_tracker p1)" by (rule refl)
    show "tracker_get (AList.update ?key ?new (action_utility_tracker p1)) ?key 10 = ?new"
      by (rule g)
    show "?new = q_update ?old dU" by (rule q[symmetric])
  qed
  have 2: "\<forall>x r. fl64 x = x \<and> fl64 r = r \<longrightarrow>
              min x r \<le> q_update x r \<and> q_update x r \<le> max x r"
    using q_update_weakly_between by blast
  have 3: "\<forall>x. fl64 x = x \<longrightarrow> q_update x x = x"
    using q_update_fixed by blast
  from 1 2 3 show ?thesis by (intro conjI)
qed


theorem learning_update_witness:
  "relationship_status (objects demo_sim 0) \<noteq> ''Dependent''
   \<and> fst (apply_aging_and_decay demo_params (objects demo_sim 0) (gen demo_sim)) = False
   \<and> 0 \<noteq> next_ref demo_sim
   \<and> action_utility_tracker (objects (fst (agent_turn demo_params 0 (demo_sim, [], []))) 0)
       = [(((1, 1), True, False, 0), 11 / 2)]
   \<and> fl64 10 = 10 \<and> fl64 1 = 1
   \<and> min 10 1 \<le> q_update 10 1 \<and> q_update 10 1 \<le> max 10 1
   \<and> q_update 10 10 = 10"
proof -
  let ?ag = "apply_aging_and_decay demo_params (objects demo_sim 0) (gen demo_sim)"
  let ?p1 = "fst (snd ?ag)"
  let ?pa = "process_action demo_params (world demo_sim) ((objects demo_sim)(0 := ?p1))
               0 (Some 1) 0 (sconst 0)"
  have nd: "relationship_status (objects demo_sim 0) \<noteq> ''Dependent''"
    by (simp add: demo_objects Person_def)
  have ag: "?ag = (False, ?p1, sconst 0)"
    using demo_turn_parts(1,2) by (simp add: demo_fields prod_eq_iff)
  have dec: "decide_action ((objects demo_sim)(0 := ?p1)) (agents demo_sim) 0 (sconst 0)
      = ((0, Some 1), sconst 0)"
    using demo_turn_parts(3) by (simp add: demo_fields)
  have pa: "?pa = ((False, 1), fst (snd ?pa), fst (snd (snd ?pa)), snd (snd (snd ?pa)))"
    using demo_turn_parts(4) by (simp add: demo_fields prod_eq_iff)
  have fresh: "0 \<noteq> next_ref demo_sim" by (simp add: demo_fields)
  have k: "state_key ?p1 0 = ((1, 1), True, False, 0)" "action_utility_tracker ?p1 = []"
    using demo_turn_parts(5,6) by (simp_all add: demo_fields)
  have a0: "fst ?ag = False" using demo_turn_parts(1) by (simp add: demo_fields)
  note w = learning_update[OF nd ag dec pa fresh, of "[]" "[]"]
  have "action_utility_tracker (objects (fst (agent_turn demo_params 0 (demo_sim, [], []))) 0)
       = AList.update ((1, 1), True, False, 0) (q_update 10 1) []"
    using w unfolding Let_def k by (simp add: tracker_get_def)
  then have t: "action_utility_tracker (objects (fst (agent_turn demo_params 0 (demo_sim, [], []))) 0)
       = [(((1, 1), True, False, 0), 11 / 2)]"
    by (simp add: q_update_demo)
  have b: "min 10 1 \<le> q_update 10 1 \<and> q_update 10 1 \<le> max 10 1"
    using w doubles(1,2) by blast
  have e: "q_update 10 10 = 10" using w doubles(1) by blast
  from nd a0 fresh t doubles(1,2) b e show ?thesis by simp
qed

text \<open>
  Claim C4 as stated fails: the new value need not lie strictly between the old value
  and the reward. When the old value is the double next to the reward -5, the exact
  result falls half way between two doubles and is rounded to the reward itself.
\<close>

theorem strict_between_counterexample:
  "fl64 (- 5 + 1 / 2 ^ 50) = - 5 + 1 / 2 ^ 50 \<and> fl64 (- 5) = - 5
   \<and> (- 5 :: real) \<noteq> - 5 + 1 / 2 ^ 50
   \<and> q_update (- 5 + 1 / 2 ^ 50) (- 5) = - 5"
proof -
  have 1: "(- 5 :: real) - (- 5 + 1 / 2 ^ 50) = - (1 / 2 ^ 50)" by simp
  have 2: "0.5 * - (1 / 2 ^ 50) = - (1 / 2 ^ 51 :: real)" by simp
  have 3: "- 5 + 1 / 2 ^ 50 + - (1 / 2 ^ 51) = (- 5 + 1 / 2 ^ 51 :: real)" by simp
  have "q_update (- 5 + 1 / 2 ^ 50) (- 5) = - 5"
    unfolding q_update_unfold 1 doubles(8) 2 doubles(9) 3 by (rule tie_rounds_to_even)
  moreover have "(- 5 :: real) \<noteq> - 5 + 1 / 2 ^ 50" by simp
  ultimately show ?thesis using doubles(6,7) by (intro conjI)
qed



subsection \<open>Death by decay\<close>

text \<open>
  Claim C5, as the code has it. In one tick of a simulation whose population list has no
  repeated object, a non-dependent member of the population whose health or sustenance
  is at or below 0 after the aging decay at the start of its turn is put on the removal
  list \<open>R\<close> and is not in the population after the tick. Every member of the population
  that is not on the removal list receives one \<open>grieve_loss\<close> for each entry of \<open>R\<close>. One
  \<open>grieve_loss\<close> lowers the mood by 15 and clamps it to the interval from 0 to 100, or
  lowers it by 40, sets the status to Grieving and clears the partner name when the name
  of the deceased is the partner name of the survivor.
\<close>

theorem decay_death_removed_and_grieved:
  assumes d: "distinct (agents s)"
      and a: "a \<in> set (agents s)"
      and f: "a < next_ref s"
      and nd: "relationship_status (objects s a) \<noteq> ''Dependent''"
      and dies: "health (decay c (objects s a)) \<le> 0 \<or> sustenance (decay c (objects s a)) \<le> 0"
      and sw: "sweep c (s\<lparr>global_clock := global_clock s + 1\<rparr>) = (s1, R, K)"
  shows "a \<in> set R \<and> a \<notin> set (agents (step c s))
       \<and> (\<forall>r \<in> set (agents s). r \<notin> set R \<longrightarrow>
             objects (step c s) r =
               fold (\<lambda>d p. fst (grieve_loss c p (name (objects s1 d)))) R (objects s1 r))
       \<and> (\<forall>p n. mood (fst (grieve_loss c p n))
                    = clamp_stat (mood p - (if Some n = partner_name p then 40 else 15))
                \<and> (Some n = partner_name p \<longrightarrow>
                     relationship_status (fst (grieve_loss c p n)) = ''Grieving''
                     \<and> partner_name (fst (grieve_loss c p n)) = None)
                \<and> (Some n \<noteq> partner_name p \<longrightarrow>
                     relationship_status (fst (grieve_loss c p n)) = relationship_status p
                     \<and> partner_name (fst (grieve_loss c p n)) = partner_name p))"
proof -
  let ?s0 = "s\<lparr>global_clock := global_clock s + 1\<rparr>"
  have 1: "a \<in> set R"
    using sweep_dead_removed[of a ?s0 c] a f nd dies by (simp add: sw)
  have K: "K = [next_ref s ..< next_ref s1]"
    using sweep_children[of ?s0 c] by (simp add: sw)
  have "a \<notin> set K" using f unfolding K by simp
  then have 2: "a \<notin> set (agents (step c s))"
    using 1 by (simp add: step_result(1)[OF d sw])
  have 3: "\<forall>r \<in> set (agents s). r \<notin> set R \<longrightarrow>
             objects (step c s) r =
               fold (\<lambda>d p. fst (grieve_loss c p (name (objects s1 d)))) R (objects s1 r)"
    by (simp add: step_result(2)[OF d sw])
  have 4: "\<forall>p n. mood (fst (grieve_loss c p n))
                    = clamp_stat (mood p - (if Some n = partner_name p then 40 else 15))
                \<and> (Some n = partner_name p \<longrightarrow>
                     relationship_status (fst (grieve_loss c p n)) = ''Grieving''
                     \<and> partner_name (fst (grieve_loss c p n)) = None)
                \<and> (Some n \<noteq> partner_name p \<longrightarrow>
                     relationship_status (fst (grieve_loss c p n)) = relationship_status p
                     \<and> partner_name (fst (grieve_loss c p n)) = partner_name p)"
    using grieve_loss_effect[of c] by blast
  from 1 2 3 4 show ?thesis by (intro conjI)
qed


theorem decay_death_removed_and_grieved_witness:
  "distinct (agents famine_sim) \<and> 0 \<in> set (agents famine_sim) \<and> 0 < next_ref famine_sim
   \<and> relationship_status (objects famine_sim 0) \<noteq> ''Dependent''
   \<and> (health (decay demo_params (objects famine_sim 0)) \<le> 0
        \<or> sustenance (decay demo_params (objects famine_sim 0)) \<le> 0)
   \<and> 0 \<notin> set (agents (step demo_params famine_sim))
   \<and> 2 \<in> set (agents famine_sim) \<and> 2 \<notin> set [0::nat]
   \<and> objects (step demo_params famine_sim) 2
       = fst (grieve_loss demo_params
           (objects (fst (sweep demo_params
               (famine_sim\<lparr>global_clock := global_clock famine_sim + 1\<rparr>))) 2) ''Leo'')
   \<and> Some ''Leo'' = partner_name ((objects demo_sim 1)\<lparr>partner_name := Some ''Leo''\<rparr>)
   \<and> relationship_status (fst (grieve_loss demo_params
          ((objects demo_sim 1)\<lparr>partner_name := Some ''Leo''\<rparr>) ''Leo'')) = ''Grieving''
   \<and> mood (fst (grieve_loss demo_params
          ((objects demo_sim 1)\<lparr>partner_name := Some ''Leo''\<rparr>) ''Leo'')) = 40
   \<and> Some ''Leo'' \<noteq> partner_name (objects demo_sim 1)
   \<and> mood (fst (grieve_loss demo_params (objects demo_sim 1) ''Leo'')) = 65"
proof -
  let ?s1 = "fst (sweep demo_params (famine_sim\<lparr>global_clock := global_clock famine_sim + 1\<rparr>))"
  have d: "distinct (agents famine_sim)" by (simp add: famine_fields)
  have i: "0 \<in> set (agents famine_sim)" "0 < next_ref famine_sim"
    "2 \<in> set (agents famine_sim)" "2 \<notin> set [0::nat]"
    by (simp_all add: famine_fields)
  have sw: "sweep demo_params (famine_sim\<lparr>global_clock := global_clock famine_sim + 1\<rparr>)
       = (?s1, [0], [])"
    by (rule famine_parts(1))
  note g = decay_death_removed_and_grieved[OF d i(1,2) famine_dies sw]
  have r: "0 \<notin> set (agents (step demo_params famine_sim))" using g by blast
  have o: "objects (step demo_params famine_sim) 2
       = fst (grieve_loss demo_params (objects ?s1 2) ''Leo'')"
    using g i(3) by (simp add: famine_parts(4))
  have p: "Some ''Leo'' = partner_name ((objects demo_sim 1)\<lparr>partner_name := Some ''Leo''\<rparr>)"
    "Some ''Leo'' \<noteq> partner_name (objects demo_sim 1)"
    by (simp_all add: demo_objects Person_def)
  have m: "mood (objects demo_sim 1) = 80"
    "mood ((objects demo_sim 1)\<lparr>partner_name := Some ''Leo''\<rparr>) = 80"
    by (simp_all add: demo_objects Person_def)
  have e1: "relationship_status (fst (grieve_loss demo_params
          ((objects demo_sim 1)\<lparr>partner_name := Some ''Leo''\<rparr>) ''Leo'')) = ''Grieving''"
    using g p(1) by blast
  have e2: "mood (fst (grieve_loss demo_params
          ((objects demo_sim 1)\<lparr>partner_name := Some ''Leo''\<rparr>) ''Leo'')) = 40"
    using g p(1) m(2) by (simp add: clamp_stat_def clamp_def MAX_STAT_def)
  have e3: "mood (fst (grieve_loss demo_params (objects demo_sim 1) ''Leo'')) = 65"
    using g p(2) m(1) by (simp add: clamp_stat_def clamp_def MAX_STAT_def)
  from d i(1,2) famine_dies r i(3,4) o p(1) e1 e2 p(2) e3 show ?thesis by (intro conjI)
qed

text \<open>
  Claim C5 as stated fails: an agent with sustenance 40 that attempts an exit has its
  sustenance driven to 0 by the cost of the attempt and is still in the population after
  the tick; only the aging step of a later tick removes it.
\<close>

theorem removal_counterexample:
  "sustenance (objects weary_sim 0) = 40
   \<and> sustenance (objects (step demo_params weary_sim) 0) = 0
   \<and> 0 \<in> set (agents (step demo_params weary_sim))"
proof -
  let ?s0 = "weary_sim\<lparr>global_clock := global_clock weary_sim + 1\<rparr>"
  define rest :: "nat list" where "rest = [1, 2]"
  have r0: "0 \<notin> set rest" by (simp add: rest_def)
  obtain sa Ra Ka where ta: "agent_turn demo_params 0 (?s0, [], []) = (sa, Ra, Ka)"
    by (metis surj_pair)
  have a: "Ra = []" "Ka = []" "sustenance (objects sa 0) = 0" "next_ref sa = 3"
    using weary_turn[of "global_clock weary_sim + 1"] by (simp_all add: ta)
  obtain sf Rf Kf where tf: "fold (agent_turn demo_params) rest (sa, [], []) = (sf, Rf, Kf)"
    by (metis surj_pair)
  have sw: "sweep demo_params ?s0 = (sf, Rf, Kf)"
  proof -
    have "sweep demo_params ?s0 =
        fold (agent_turn demo_params) rest (agent_turn demo_params 0 (?s0, [], []))"
      by (simp add: sweep_def weary_fields rest_def)
    then show ?thesis unfolding ta a tf .
  qed
  have "set Rf \<subseteq> set [] \<union> set rest"
    using fold_removal[where R = "[]" and c = demo_params and xs = rest and s = sa
        and K = "[]"] unfolding tf by simp
  then have nR: "0 \<notin> set Rf" using r0 by auto
  have "beliefs_only (objects sa 0) (objects sf 0)"
    using fold_others[where r = 0 and xs = rest and s = sa and c = demo_params
        and R = "[]" and K = "[]"] r0 unfolding tf by (simp add: a)
  then have sus: "sustenance (objects sf 0) = 0"
    using a(3) by (simp add: beliefs_only_def)
  have d: "distinct (agents weary_sim)" by (simp add: weary_fields)
  have 1: "sustenance (objects weary_sim 0) = 40" by (simp add: weary_fields)
  have 2: "sustenance (objects (step demo_params weary_sim) 0) = 0"
    using nR sus by (simp add: step_result(2)[OF d sw] weary_fields grief_fold_sustenance)
  have 3: "0 \<in> set (agents (step demo_params weary_sim))"
    using nR by (simp add: step_result(1)[OF d sw] weary_fields)
  from 1 2 3 show ?thesis by (intro conjI)
qed

subsection \<open>The identifiers and the operating-system entropy do not reach the metrics\<close>

text \<open>
  No function of the program reads the identifier of an object: each function of an
  object, of the store and of the simulation commutes with a renaming of the
  identifiers.
\<close>

lemma set_uid_sel:
  "name (set_uid u p) = name p"
  "gender (set_uid u p) = gender p"
  "age_years (set_uid u p) = age_years p"
  "is_alive (set_uid u p) = is_alive p"
  "turns_survived (set_uid u p) = turns_survived p"
  "health (set_uid u p) = health p"
  "sustenance (set_uid u p) = sustenance p"
  "mood (set_uid u p) = mood p"
  "self_confidence (set_uid u p) = self_confidence p"
  "reputation (set_uid u p) = reputation p"
  "personal_goal (set_uid u p) = personal_goal p"
  "TiR_score (set_uid u p) = TiR_score p"
  "relationship_status (set_uid u p) = relationship_status p"
  "partner_name (set_uid u p) = partner_name p"
  "progeny_count (set_uid u p) = progeny_count p"
  "position (set_uid u p) = position p"
  "last_action (set_uid u p) = last_action p"
  "action_utility_tracker (set_uid u p) = action_utility_tracker p"
  "MEMORY_CAP (set_uid u p) = MEMORY_CAP p"
  "w_Sustenance (set_uid u p) = w_Sustenance p"
  "w_Goal_Progress (set_uid u p) = w_Goal_Progress p"
  "w_Social_Bond (set_uid u p) = w_Social_Bond p"
  "w_Purpose_Goal (set_uid u p) = w_Purpose_Goal p"
  by (simp_all add: set_uid_def)

lemma set_uid_upd:
  "name_update f1 (set_uid u p) = set_uid u (name_update f1 p)"
  "gender_update f2 (set_uid u p) = set_uid u (gender_update f2 p)"
  "age_years_update f3 (set_uid u p) = set_uid u (age_years_update f3 p)"
  "is_alive_update f4 (set_uid u p) = set_uid u (is_alive_update f4 p)"
  "turns_survived_update f5 (set_uid u p) = set_uid u (turns_survived_update f5 p)"
  "health_update f6 (set_uid u p) = set_uid u (health_update f6 p)"
  "sustenance_update f7 (set_uid u p) = set_uid u (sustenance_update f7 p)"
  "mood_update f8 (set_uid u p) = set_uid u (mood_update f8 p)"
  "self_confidence_update f9 (set_uid u p) = set_uid u (self_confidence_update f9 p)"
  "reputation_update f10 (set_uid u p) = set_uid u (reputation_update f10 p)"
  "personal_goal_update f11 (set_uid u p) = set_uid u (personal_goal_update f11 p)"
  "TiR_score_update f12 (set_uid u p) = set_uid u (TiR_score_update f12 p)"
  "relationship_status_update f13 (set_uid u p) = set_uid u (relationship_status_update f13 p)"
  "partner_name_update f14 (set_uid u p) = set_uid u (partner_name_update f14 p)"
  "progeny_count_update f15 (set_uid u p) = set_uid u (progeny_count_update f15 p)"
  "position_update f16 (set_uid u p) = set_uid u (position_update f16 p)"
  "last_action_update f17 (set_uid u p) = set_uid u (last_action_update f17 p)"
  "action_utility_tracker_update f18 (set_uid u p) = set_uid u (action_utility_tracker_update f18 p)"
  "MEMORY_CAP_update f19 (set_uid u p) = set_uid u (MEMORY_CAP_update f19 p)"
  "w_Sustenance_update f20 (set_uid u p) = set_uid u (w_Sustenance_update f20 p)"
  "w_Goal_Progress_update f21 (set_uid u p) = set_uid u (w_Goal_Progress_update f21 p)"
  "w_Social_Bond_update f22 (set_uid u p) = set_uid u (w_Social_Bond_update f22 p)"
  "w_Purpose_Goal_update f23 (set_uid u p) = set_uid u (w_Purpose_Goal_update f23 p)"
  by (simp_all add: set_uid_def)

lemma set_uid_uid: "uid (set_uid u p) = u" "set_uid u (set_uid u' p) = set_uid u p"
  by (simp_all add: set_uid_def)

lemmas set_uid_simps = set_uid_sel set_uid_upd

lemma reuid_apply: "reuid v h r = set_uid (v r) (h r)"
  by (simp add: reuid_def)

lemma reuid_upd: "(reuid v h)(a := set_uid (v a) p) = reuid v (h(a := p))"
  by (auto simp: reuid_def fun_eq_iff)

lemma reuid_upd_new: "(reuid v h)(a := set_uid i p) = reuid (v(a := i)) (h(a := p))"
  by (auto simp: reuid_def fun_eq_iff)

lemma base_cost_uid: "base_cost c (set_uid u p) = set_uid u (base_cost c p)"
  by (simp add: base_cost_def Let_def set_uid_simps)

lemma final_clamping_uid: "final_clamping c (set_uid u p) = set_uid u (final_clamping c p)"
  by (simp add: final_clamping_def Let_def set_uid_simps)

lemma move_action_uid:
  "move_action w (set_uid u p) act = (fst (move_action w p act), set_uid u (snd (move_action w p act)))"
  by (simp add: move_action_def Let_def split_beta set_uid_simps)

lemma market_action_uid:
  "market_action c w (set_uid u p)
     = (fst (market_action c w p), fst (snd (market_action c w p)),
        set_uid u (snd (snd (market_action c w p))))"
  by (simp add: market_action_def Let_def set_uid_simps)

lemma rest_action_uid:
  "rest_action c (set_uid u p) = (fst (rest_action c p), set_uid u (snd (rest_action c p)))"
  by (simp add: rest_action_def Let_def set_uid_simps)

lemma exit_attempt_uid:
  "exit_attempt c (set_uid u p) g
     = (fst (exit_attempt c p g), set_uid u (fst (snd (exit_attempt c p g))),
        snd (snd (exit_attempt c p g)))"
  by (simp add: exit_attempt_def Let_def split_beta set_uid_simps)

lemma state_key_uid: "state_key (set_uid u p) act = state_key p act"
  by (simp add: state_key_def set_uid_simps)

lemma learn_uid: "learn k d (set_uid u p) = set_uid u (learn k d p)"
  by (simp add: learn_def Let_def set_uid_simps)

lemma shock_uid: "shock (set_uid u p) = set_uid u (shock p)"
  by (simp add: shock_def Let_def set_uid_simps)

lemma dependent_turn_uid: "dependent_turn c (set_uid u p) = set_uid u (dependent_turn c p)"
  by (simp add: dependent_turn_def Let_def set_uid_simps)

lemma decay_uid: "decay c (set_uid u p) = set_uid u (decay c p)"
  by (simp add: decay_def Let_def get_health_decay_rate_def set_uid_simps)

lemma prune_memory_uid:
  "prune_memory (set_uid u p) g
     = (set_uid u (fst (prune_memory p g)), snd (prune_memory p g))"
  by (simp add: prune_memory_def Let_def split_beta set_uid_simps)

lemma apply_aging_uid:
  "apply_aging_and_decay c (set_uid u p) g
     = (fst (apply_aging_and_decay c p g),
        set_uid u (fst (snd (apply_aging_and_decay c p g))),
        snd (snd (apply_aging_and_decay c p g)))"
  by (simp add: apply_aging_and_decay_def Let_def split_beta decay_uid prune_memory_uid
        set_uid_simps)

lemma grieve_loss_uid:
  "fst (grieve_loss c (set_uid u p) n) = set_uid u (fst (grieve_loss c p n))"
  by (simp add: grieve_loss_def Let_def split_beta set_uid_simps)

lemma utility_uid: "utility (set_uid u p) act = utility p act"
  by (simp add: utility_def Let_def state_key_def set_uid_simps)

lemma best_action_uid: "best_action (set_uid u p) acts b = best_action p acts b"
  by (induction acts arbitrary: b) (simp_all add: utility_uid cong: option.case_cong if_cong)

lemma exploration_uid: "get_exploration_rate (set_uid u p) = get_exploration_rate p"
  by (simp add: get_exploration_rate_def set_uid_simps)

lemma Person_uid: "Person c i n g a ps r gl t m = set_uid i (Person c j n g a ps r gl t m)"
  by (simp add: Person_def set_uid_def)

lemma create_child_uid:
  "create_child c (set_uid u p) (set_uid u' q) cap i g
     = (set_uid u (fst (create_child c p q cap 0 g)),
        set_uid i (fst (snd (create_child c p q cap 0 g))),
        snd (snd (create_child c p q cap 0 g)))"
  by (simp add: create_child_def Let_def split_beta set_uid_simps
        Person_uid[where i = i and j = 0])

lemma share_belief_uid:
  "share_belief (reuid v h) a t = (reuid v (fst (share_belief h a t)), snd (share_belief h a t))"
  by (simp add: share_belief_def Let_def reuid_apply set_uid_simps reuid_upd)

lemma action_branch_uid:
  "action_branch c w (reuid v h) a t act g
     = (case action_branch c w h a t act g of (res, w', h', g') \<Rightarrow> (res, w', reuid v h', g'))"
  by (auto simp: action_branch_def Let_def split_beta reuid_apply set_uid_simps reuid_upd
        move_action_uid market_action_uid rest_action_uid exit_attempt_uid share_belief_uid)

lemma process_action_uid:
  "process_action c w (reuid v h) a t act g
     = (case process_action c w h a t act g of (res, w', h', g') \<Rightarrow> (res, w', reuid v h', g'))"
  by (simp add: process_action_def Let_def split_beta reuid_apply reuid_upd
        base_cost_uid final_clamping_uid action_branch_uid)

lemma decide_action_uid: "decide_action (reuid v h) pop a g = decide_action h pop a g"
  by (simp add: decide_action_def Let_def split_beta reuid_apply set_uid_simps exploration_uid
        best_action_uid)

lemma exit_shock_uid: "exit_shock (reuid v h) pop a = reuid v (exit_shock h pop a)"
proof -
  have "fold (\<lambda>s h'. h'(s := shock (h' s))) xs (reuid v h)
          = reuid v (fold (\<lambda>s h'. h'(s := shock (h' s))) xs h)" for xs
    by (induction xs arbitrary: h) (simp_all add: reuid_apply shock_uid reuid_upd)
  then show ?thesis by (simp add: exit_shock_def)
qed

lemma grieve_all_uid: "grieve_all c xs d (reuid v h) = reuid v (grieve_all c xs d h)"
  unfolding grieve_all_def
  by (induction xs arbitrary: h)
     (simp_all add: reuid_apply grieve_loss_uid reuid_upd set_uid_simps)

lemma grief_and_remove_uid:
  "grief_and_remove c R ds (pop, reuid v h)
     = (fst (grief_and_remove c R ds (pop, h)), reuid v (snd (grief_and_remove c R ds (pop, h))))"
  by (induction ds arbitrary: pop h) (simp_all add: grieve_all_uid Let_def)

lemma resim_fields:
  "turns (resim v u s) = turns s" "seed (resim v u s) = seed s"
  "world (resim v u s) = world s" "global_clock (resim v u s) = global_clock s"
  "exit_log (resim v u s) = exit_log s" "agents (resim v u s) = agents s"
  "metrics (resim v u s) = metrics s" "objects (resim v u s) = reuid v (objects s)"
  "next_ref (resim v u s) = next_ref s" "gen (resim v u s) = gen s"
  "uuids (resim v u s) = u"
  by (simp_all add: resim_def)

lemma resim_upd:
  "(resim v u s)\<lparr>global_clock := k\<rparr> = resim v u (s\<lparr>global_clock := k\<rparr>)"
  "(resim v u s)\<lparr>objects := reuid v' h\<rparr> = resim v' u (s\<lparr>objects := h\<rparr>)"
  "(resim v u s)\<lparr>world := w\<rparr> = resim v u (s\<lparr>world := w\<rparr>)"
  "(resim v u s)\<lparr>gen := g\<rparr> = resim v u (s\<lparr>gen := g\<rparr>)"
  "(resim v u s)\<lparr>exit_log := e\<rparr> = resim v u (s\<lparr>exit_log := e\<rparr>)"
  "(resim v u s)\<lparr>agents := xs\<rparr> = resim v u (s\<lparr>agents := xs\<rparr>)"
  "(resim v u s)\<lparr>metrics := m\<rparr> = resim v u (s\<lparr>metrics := m\<rparr>)"
  "(resim v u s)\<lparr>next_ref := n\<rparr> = resim v u (s\<lparr>next_ref := n\<rparr>)"
  "(resim v u s)\<lparr>uuids := u'\<rparr> = resim v u' s"
  by (simp_all add: resim_def)

lemma record_exit_uid:
  "record_exit a (resim v u s, R) = (resim v u (fst (record_exit a (s, R))), snd (record_exit a (s, R)))"
  by (simp add: record_exit_def resim_fields exit_shock_uid resim_upd)

lemma create_child_fresh:
  "create_child c p q cap i g
     = (fst (create_child c p q cap 0 g), set_uid i (fst (snd (create_child c p q cap 0 g))),
        snd (snd (create_child c p q cap 0 g)))"
  by (simp add: create_child_def Let_def split_beta set_uid_simps
        Person_uid[where i = i and j = 0])

lemma reproduce_uid:
  "reproduce c a t (resim v u s, K)
     = (resim (v(next_ref s := shd u)) (stl u) (fst (reproduce c a t (s, K))),
        snd (reproduce c a t (s, K)))"
proof -
  let ?X = "create_child c (objects s a) (objects s t) (MAX_HEALTH c) 0 (gen s)"
  have 1: "create_child c (objects s a) (objects s t) (MAX_HEALTH c) (shd (uuids s)) (gen s)
             = (fst ?X, set_uid (shd (uuids s)) (fst (snd ?X)), snd (snd ?X))"
    by (rule create_child_fresh)
  have 2: "create_child c (reuid v (objects s) a) (reuid v (objects s) t) (MAX_HEALTH c) (shd u)
             (gen s) = (set_uid (v a) (fst ?X), set_uid (shd u) (fst (snd ?X)), snd (snd ?X))"
    by (simp only: reuid_apply create_child_uid)
  have 3: "(reuid v h)(a := set_uid (v a) p, r := set_uid i q)
             = reuid (v(r := i)) (h(a := p, r := set_uid (shd (uuids s)) q))" for h p r i q
    by (auto simp: reuid_def fun_eq_iff set_uid_uid)
  show ?thesis
    by (simp add: reproduce_def Let_def resim_fields 1 2 3 resim_upd)
qed

lemma acting_turn_unfold:
  assumes "decide_action (objects s) (agents s) a (gen s) = ((act, tgt), g2)"
    and "process_action c (world s) (objects s) a tgt act g2 = ((ex, dU), w3, h3, g3)"
  shows "acting_turn c a (s, R, K) =
          (case (if ex then record_exit a
                   (s\<lparr>world := w3,
                      objects := h3(a := learn (state_key (objects s a) act) dU (h3 a)),
                      gen := g3\<rparr>, R)
                 else (s\<lparr>world := w3,
                      objects := h3(a := learn (state_key (objects s a) act) dU (h3 a)),
                      gen := g3\<rparr>, R)) of
             (s5, R') \<Rightarrow>
               (case (if act = 10 \<and> tgt \<noteq> None then reproduce c a (the tgt) (s5, K)
                      else (s5, K)) of
                  (s6, K') \<Rightarrow> (s6, R', K')))"
  unfolding acting_turn_def Let_def by (simp only: prod.case assms)

lemma acting_turn_uid:
  "\<exists>v' u'. acting_turn c a (resim v u s, R, K)
      = (resim v' u' (fst (acting_turn c a (s, R, K))), snd (acting_turn c a (s, R, K)))"
proof -
  obtain action target g2 where
    d: "decide_action (objects s) (agents s) a (gen s) = ((action, target), g2)"
    by (metis prod.exhaust)
  obtain ex dU w3 h3 g3 where
    p: "process_action c (world s) (objects s) a target action g2 = ((ex, dU), w3, h3, g3)"
    by (metis prod.exhaust)
  define s4 where
    "s4 = s\<lparr>world := w3,
             objects := h3(a := learn (state_key (objects s a) action) dU (h3 a)), gen := g3\<rparr>"
  obtain s5 R' where e: "(if ex then record_exit a (s4, R) else (s4, R)) = (s5, R')"
    by (metis prod.exhaust)
  have d': "decide_action (objects (resim v u s)) (agents (resim v u s)) a (gen (resim v u s))
              = ((action, target), g2)"
    by (simp add: resim_fields decide_action_uid d)
  have p': "process_action c (world (resim v u s)) (objects (resim v u s)) a target action g2
              = ((ex, dU), w3, reuid v h3, g3)"
    by (simp add: resim_fields process_action_uid p)
  have s4': "(resim v u s)\<lparr>world := w3,
                objects := (reuid v h3)(a := learn (state_key (objects (resim v u s) a) action) dU
                                              (reuid v h3 a)), gen := g3\<rparr> = resim v u s4"
    by (simp add: s4_def resim_fields reuid_apply state_key_uid learn_uid reuid_upd resim_upd)
  have e': "(if ex then record_exit a (resim v u s4, R) else (resim v u s4, R))
              = (resim v u s5, R')"
    using e by (auto simp: record_exit_uid split: if_splits)
  have lhs: "acting_turn c a (resim v u s, R, K)
               = (case (if action = 10 \<and> target \<noteq> None
                        then reproduce c a (the target) (resim v u s5, K)
                        else (resim v u s5, K)) of (s6, K') \<Rightarrow> (s6, R', K'))"
    unfolding acting_turn_unfold[OF d' p'] s4' e' by (simp only: prod.case)
  have rhs: "acting_turn c a (s, R, K)
               = (case (if action = 10 \<and> target \<noteq> None
                        then reproduce c a (the target) (s5, K)
                        else (s5, K)) of (s6, K') \<Rightarrow> (s6, R', K'))"
    unfolding acting_turn_unfold[OF d p] s4_def[symmetric] e by (simp only: prod.case)
  show ?thesis
  proof (cases "action = 10 \<and> target \<noteq> None")
    case True
    have "acting_turn c a (resim v u s, R, K)
            = (resim (v(next_ref s5 := shd u)) (stl u) (fst (acting_turn c a (s, R, K))),
               snd (acting_turn c a (s, R, K)))"
      unfolding lhs rhs if_P[OF True] by (simp add: reproduce_uid split_beta)
    then show ?thesis by blast
  next
    case False
    have "acting_turn c a (resim v u s, R, K)
            = (resim v u (fst (acting_turn c a (s, R, K))), snd (acting_turn c a (s, R, K)))"
      unfolding lhs rhs if_not_P[OF False] by simp
    then show ?thesis by blast
  qed
qed

lemma agent_turn_uid:
  "\<exists>v' u'. agent_turn c a (resim v u s, R, K)
      = (resim v' u' (fst (agent_turn c a (s, R, K))), snd (agent_turn c a (s, R, K)))"
proof (cases "relationship_status (objects s a) = ''Dependent''")
  case True
  then have "agent_turn c a (resim v u s, R, K)
      = (resim v u (fst (agent_turn c a (s, R, K))), snd (agent_turn c a (s, R, K)))"
    by (simp add: agent_turn_def resim_fields reuid_apply set_uid_simps dependent_turn_uid
          reuid_upd resim_upd)
  then show ?thesis by blast
next
  case False
  obtain died p1 g1 where
    ag: "apply_aging_and_decay c (objects s a) (gen s) = (died, p1, g1)"
    by (metis prod.exhaust)
  define s1 where "s1 = s\<lparr>objects := (objects s)(a := p1), gen := g1\<rparr>"
  have s1': "(resim v u s)\<lparr>objects := (reuid v (objects s))(a := set_uid (v a) p1), gen := g1\<rparr>
               = resim v u s1"
    by (simp add: s1_def reuid_upd resim_upd)
  have lhs: "agent_turn c a (resim v u s, R, K)
               = (if died then (resim v u s1, R @ [a], K)
                  else acting_turn c a (resim v u s1, R, K))"
    using False
    by (simp add: agent_turn_def resim_fields reuid_apply set_uid_simps apply_aging_uid ag s1')
  have rhs: "agent_turn c a (s, R, K)
               = (if died then (s1, R @ [a], K) else acting_turn c a (s1, R, K))"
    using False by (simp add: agent_turn_def ag s1_def)
  show ?thesis
  proof (cases died)
    case True
    then show ?thesis unfolding lhs rhs by simp blast
  next
    case False
    then show ?thesis unfolding lhs rhs using acting_turn_uid[of c a v u s1 R K] by simp
  qed
qed

lemma fold_agent_turn_uid:
  "\<exists>v' u'. fold (agent_turn c) xs (resim v u s, R, K)
      = (resim v' u' (fst (fold (agent_turn c) xs (s, R, K))),
         snd (fold (agent_turn c) xs (s, R, K)))"
proof (induction xs arbitrary: v u s R K)
  case Nil
  show ?case by simp blast
next
  case (Cons a xs)
  obtain s' R' K' where t: "agent_turn c a (s, R, K) = (s', R', K')"
    by (metis prod.exhaust)
  obtain v1 u1 where 1: "agent_turn c a (resim v u s, R, K) = (resim v1 u1 s', R', K')"
    using agent_turn_uid[of c a v u s R K] by (auto simp: t)
  show ?case using Cons.IH[of v1 u1 s' R' K'] by (simp add: 1 t)
qed

lemma make_snapshot_uid: "make_snapshot (resim v u s) = make_snapshot s"
  by (simp add: make_snapshot_def resim_fields reuid_apply set_uid_simps)

lemma step_uid: "\<exists>v' u'. step c (resim v u s) = resim v' u' (step c s)"
proof -
  let ?s0 = "s\<lparr>global_clock := global_clock s + 1\<rparr>"
  obtain s1 R K where sw: "sweep c ?s0 = (s1, R, K)"
    by (metis prod.exhaust)
  obtain v1 u1 where
    "fold (agent_turn c) (agents ?s0) (resim v u ?s0, [], [])
       = (resim v1 u1 (fst (fold (agent_turn c) (agents ?s0) (?s0, [], []))),
          snd (fold (agent_turn c) (agents ?s0) (?s0, [], [])))"
    using fold_agent_turn_uid[of c "agents ?s0" v u ?s0 "[]" "[]"] by blast
  then have "sweep c (resim v u ?s0) = (resim v1 u1 (fst (sweep c ?s0)), snd (sweep c ?s0))"
    by (simp add: sweep_def resim_fields)
  then have sw': "sweep c (resim v u ?s0) = (resim v1 u1 s1, R, K)"
    by (simp add: sw)
  obtain pop h where gr: "grief_and_remove c R R (agents s1, objects s1) = (pop, h)"
    by (metis prod.exhaust)
  have "step c (resim v u s) = resim v1 u1 (step c s)"
    by (simp add: step_def Let_def resim_fields resim_upd sw sw' grief_and_remove_uid gr
          make_snapshot_uid)
  then show ?thesis by blast
qed

lemma steps_uid: "\<exists>v' u'. (step c ^^ n) (resim v u s) = resim v' u' ((step c ^^ n) s)"
proof (induction n)
  case 0
  show ?case by simp blast
next
  case (Suc n)
  then obtain v1 u1 where "(step c ^^ n) (resim v u s) = resim v1 u1 ((step c ^^ n) s)"
    by blast
  then show ?case using step_uid[of c v1 u1 "(step c ^^ n) s"] by simp
qed

lemma run_uid: "metrics (run c (resim v u s)) = metrics (run c s)"
proof -
  obtain v' u' where "(step c ^^ nat (turns s)) (resim v u s)
                        = resim v' u' ((step c ^^ nat (turns s)) s)"
    using steps_uid by blast
  then show ?thesis by (simp add: run_def resim_fields)
qed

lemma Simulation_uid:
  "\<exists>v u. Simulation c prng e2 ids2 n (Some k) = resim v u (Simulation c prng e1 ids1 n (Some k))"
proof -
  have "Simulation c prng e2 ids2 n (Some k)
          = resim ((\<lambda>r. 0)(0 := shd ids2, 1 := shd (stl ids2), 2 := shd (stl (stl ids2))))
              (stl (stl (stl ids2))) (Simulation c prng e1 ids1 n (Some k))"
    by (auto simp: Simulation_def resim_def reuid_def fun_eq_iff blank_def
          Person_uid[where i = "shd ids2" and j = "shd ids1"]
          Person_uid[where i = "shd (stl ids2)" and j = "shd (stl ids1)"]
          Person_uid[where i = "shd (stl (stl ids2))" and j = "shd (stl (stl ids1))"]
          set_uid_def Person_def)
  then show ?thesis by blast
qed

text \<open>
  Claim C8. Two runs started with the same seed and the same parameters (turns,
  initial population, constants) produce the same list of snapshots (tick, population
  size, number of exits, resource level, mean alignment score). The two runs may differ
  in everything the seed does not control: the state that the operating system gave the
  generator, \<open>e1\<close> and \<open>e2\<close>, and the identifiers that \<open>uuid.uuid4()\<close> hands out,
  \<open>ids1\<close> and \<open>ids2\<close>.
\<close>

theorem same_seed_same_metrics:
  "metrics (run c (Simulation c prng e1 ids1 n (Some k)))
     = metrics (run c (Simulation c prng e2 ids2 n (Some k)))"
proof -
  obtain v u where
    "Simulation c prng e2 ids2 n (Some k) = resim v u (Simulation c prng e1 ids1 n (Some k))"
    using Simulation_uid by blast
  then show ?thesis by (simp add: run_uid)
qed

theorem same_seed_same_metrics_witness:
  "shd (uuids (Simulation demo_params (\<lambda>k. sconst (nat k)) (sconst 1) (sconst 7) 3 (Some 5)))
     \<noteq> shd (uuids (Simulation demo_params (\<lambda>k. sconst (nat k)) (sconst 2) (sconst 9) 3
                       (Some 5)))
   \<and> metrics (run demo_params
         (Simulation demo_params (\<lambda>k. sconst (nat k)) (sconst 1) (sconst 7) 3 (Some 5)))
     = metrics (run demo_params
         (Simulation demo_params (\<lambda>k. sconst (nat k)) (sconst 2) (sconst 9) 3 (Some 5)))"
proof -
  have "shd (uuids (Simulation demo_params (\<lambda>k. sconst (nat k)) (sconst 1) (sconst 7) 3
                      (Some 5)))
          \<noteq> shd (uuids (Simulation demo_params (\<lambda>k. sconst (nat k)) (sconst 2) (sconst 9) 3
                            (Some 5)))"
    by (simp add: Simulation_def)
  with same_seed_same_metrics[where c = demo_params and prng = "\<lambda>k. sconst (nat k)"
      and ?e1.0 = "sconst 1" and ?ids1.0 = "sconst 7" and n = 3 and k = 5
      and ?e2.0 = "sconst 2" and ?ids2.0 = "sconst 9"]
  show ?thesis by (intro conjI)
qed

end
